theory Spec2Isabelle
  imports Complex_Main
begin

section \<open>The word class optimizer of src/wordclasses/optimizer.py\<close>

text \<open>
  The class \<open>Optimizer\<close> keeps word and word-word counts of a corpus, an assignment of
  the words to classes and the class-level counts derived from both. The embedding
  follows the source method by method. Python exceptions are values of \<open>error\<close>, a
  method that may raise returns \<open>error + 'a\<close>, and the object \<open>self\<close> is a record
  that a mutating method returns updated.

  Conventions of the embedding:
  \<^item> numpy's int64 counts are \<open>int\<close>: every count is bounded by the number of tokens
    of the corpus, far from \<open>2^63\<close>, so no wrap-around is written out;
  \<^item> word ids and class ids are \<open>nat\<close>: negative indices (which Python counts from
    the end) are outside the model;
  \<^item> a float64 is a real number or one of the three special values, see \<open>npfloat\<close>;
    rounding is not modelled;
  \<^item> a character of a line is a code point below 256; the white space of
    \<open>str.split()\<close> and \<open>str.strip()\<close> among these is 9 to 13, 28 to 32, 133 and 160.
\<close>

subsection \<open>Exceptions\<close>

datatype error = IndexError | KeyError | TypeError

subsection \<open>Strings: \<open>str.split()\<close> and \<open>str.strip()\<close>\<close>

definition is_space :: "char \<Rightarrow> bool" where
  "is_space c = (let n = (of_char c :: nat)
                 in (9 \<le> n \<and> n \<le> 13) \<or> (28 \<le> n \<and> n \<le> 32) \<or> n = 133 \<or> n = 160)"

text \<open>\<open>split_from cur rest\<close>: \<open>cur\<close> is the word read so far.\<close>

fun split_from :: "string \<Rightarrow> string \<Rightarrow> string list" where
  "split_from cur [] = (if cur = [] then [] else [cur])"
| "split_from cur (c # cs) =
     (if is_space c then (if cur = [] then split_from [] cs else cur # split_from [] cs)
      else split_from (cur @ [c]) cs)"

definition split_ws :: "string \<Rightarrow> string list" where
  "split_ws line = split_from [] line"

definition strip :: "string \<Rightarrow> string" where
  "strip s = rev (dropWhile is_space (rev (dropWhile is_space s)))"

subsection \<open>Arrays\<close>

text \<open>
  A one-dimensional numpy array is a list, a two-dimensional one a list of rows.
  \<open>vec_add a i d\<close> is \<open>a[i] += d\<close> and \<open>mat_add m i j d\<close> is \<open>m[i,j] += d\<close>. The
  methods index the tables only with ids that the tables' own shapes bound (see
  \<open>shaped\<close> below); the two arguments a caller passes to \<open>move\<close> and
  \<open>evaluate_move\<close> are checked where the source first uses them as an index.
\<close>

definition vec_add :: "int list \<Rightarrow> nat \<Rightarrow> int \<Rightarrow> int list" where
  "vec_add a i d = a[i := a ! i + d]"

definition mat_add :: "int list list \<Rightarrow> nat \<Rightarrow> nat \<Rightarrow> int \<Rightarrow> int list list" where
  "mat_add m i j d = m[i := (m ! i)[j := m ! i ! j + d]]"

definition zeros :: "nat \<Rightarrow> int list" where
  "zeros n = replicate n 0"

definition zeros2 :: "nat \<Rightarrow> nat \<Rightarrow> int list list" where
  "zeros2 r c = replicate r (replicate c 0)"

text \<open>\<open>m[:,j]\<close>, the column \<open>j\<close>.\<close>

definition column :: "int list list \<Rightarrow> nat \<Rightarrow> int list" where
  "column m j = map (\<lambda>row. row ! j) m"

text \<open>\<open>numpy.ndenumerate(m)\<close>: the cells in row-major order, each with its index pair.\<close>

definition ndenumerate :: "int list list \<Rightarrow> ((nat \<times> nat) \<times> int) list" where
  "ndenumerate m =
     concat (map (\<lambda>(i, row). map (\<lambda>(j, x). ((i, j), x)) (enumerate 0 row)) (enumerate 0 m))"

text \<open>\<open>a.sum()\<close> of a two-dimensional array.\<close>

definition sum2 :: "int list list \<Rightarrow> int" where
  "sum2 m = sum_list (map sum_list m)"

subsection \<open>Floating point values\<close>

datatype npfloat = Fin real | PInf | NInf | NaN

text \<open>\<open>numpy.log\<close> of an integer: \<open>-inf\<close> at 0 and \<open>nan\<close> below, each with a warning only.\<close>

definition np_log :: "int \<Rightarrow> npfloat" where
  "np_log n = (if 0 < n then Fin (ln (real_of_int n)) else if n = 0 then NInf else NaN)"

text \<open>An integer times a float.\<close>

fun imul :: "int \<Rightarrow> npfloat \<Rightarrow> npfloat" where
  "imul n (Fin x) = Fin (real_of_int n * x)"
| "imul n NaN = NaN"
| "imul n PInf = (if 0 < n then PInf else if n < 0 then NInf else NaN)"
| "imul n NInf = (if 0 < n then NInf else if n < 0 then PInf else NaN)"

fun fadd :: "npfloat \<Rightarrow> npfloat \<Rightarrow> npfloat" where
  "fadd (Fin x) (Fin y) = Fin (x + y)"
| "fadd NaN _ = NaN"
| "fadd _ NaN = NaN"
| "fadd PInf NInf = NaN"
| "fadd NInf PInf = NaN"
| "fadd PInf _ = PInf"
| "fadd _ PInf = PInf"
| "fadd NInf _ = NInf"
| "fadd _ NInf = NInf"

fun fneg :: "npfloat \<Rightarrow> npfloat" where
  "fneg (Fin x) = Fin (- x)"
| "fneg PInf = NInf"
| "fneg NInf = PInf"
| "fneg NaN = NaN"

definition fsub :: "npfloat \<Rightarrow> npfloat \<Rightarrow> npfloat" where
  "fsub x y = fadd x (fneg y)"

text \<open>
  \<open>(numpy.ma.log(a) * a).sum()\<close> over the cells of \<open>a\<close>: the masked logarithm masks
  every cell that is not positive, the product keeps the mask, and the sum skips the
  masked cells. When every cell is masked the sum is the constant \<open>numpy.ma.masked\<close>,
  here \<open>None\<close>.
\<close>

definition ma_log_times_sum :: "int list \<Rightarrow> real option" where
  "ma_log_times_sum a =
     (if list_all (\<lambda>c. c \<le> 0) a then None
      else Some (sum_list (map (\<lambda>c. ln (real_of_int c) * real_of_int c) (filter (\<lambda>c. 0 < c) a))))"

subsection \<open>The object\<close>

record optimizer =
  vocabulary :: "string set"
  vocabulary_size :: nat
  word_ids :: "(string \<times> nat) list"
  word_counts :: "int list"
  ww_counts :: "int list list"
  num_classes :: nat
  word_to_class :: "nat list"
  class_to_words :: "nat set list"
  class_counts :: "int list"
  cc_counts :: "int list list"
  cw_counts :: "int list list"
  wc_counts :: "int list list"

text \<open>\<open>d[key]\<close> of a dictionary, kept as the list of its items.\<close>

fun lookup :: "(string \<times> nat) list \<Rightarrow> string \<Rightarrow> error + nat" where
  "lookup [] key = Inl KeyError"
| "lookup ((k, v) # kvs) key = (if k = key then Inr v else lookup kvs key)"

text \<open>\<open>xs[i] = v\<close> of a Python list and \<open>sets[k].add(w)\<close> of a list of sets.\<close>

definition set_item :: "'a list \<Rightarrow> nat \<Rightarrow> 'a \<Rightarrow> error + 'a list" where
  "set_item xs i v = (if i < length xs then Inr (xs[i := v]) else Inl IndexError)"

definition add_member :: "nat set list \<Rightarrow> nat \<Rightarrow> nat \<Rightarrow> error + nat set list" where
  "add_member sets k w =
     (if k < length sets then Inr (sets[k := insert w (sets ! k)]) else Inl IndexError)"

subsection \<open>\<open>__init__\<close>: the vocabulary\<close>

definition reserved_words :: "string list" where
  "reserved_words = [''<s>'', ''</s>'', ''<UNK>'']"

definition read_vocabulary :: "string list \<Rightarrow> string list option \<Rightarrow> string set" where
  "read_vocabulary corpus_file vocabulary_file =
     (case vocabulary_file of
        None \<Rightarrow> set reserved_words \<union> set (concat (map split_ws corpus_file))
      | Some lines \<Rightarrow>
          (let restrict_words = set (map strip lines)
           in set reserved_words \<union>
              set (filter (\<lambda>word. word \<in> restrict_words) (concat (map split_ws corpus_file)))))"

subsection \<open>\<open>_read_word_statistics\<close>\<close>

text \<open>
  The ids of the words of a line: \<open>self.word_ids[word]\<close> for a word of the vocabulary
  and \<open>self.word_ids['<UNK>']\<close> for any other.
\<close>

fun ids_of_words :: "string set \<Rightarrow> (string \<times> nat) list \<Rightarrow> string list \<Rightarrow> error + nat list" where
  "ids_of_words vocab ids [] = Inr []"
| "ids_of_words vocab ids (word # rest) =
     (case lookup ids (if word \<in> vocab then word else ''<UNK>'') of
        Inl e \<Rightarrow> Inl e
      | Inr i \<Rightarrow> (case ids_of_words vocab ids rest of Inl e \<Rightarrow> Inl e | Inr js \<Rightarrow> Inr (i # js)))"

definition sentence_of :: "string set \<Rightarrow> (string \<times> nat) list \<Rightarrow> string \<Rightarrow> error + nat list" where
  "sentence_of vocab ids line =
     (case lookup ids ''<s>'' of Inl e \<Rightarrow> Inl e | Inr first \<Rightarrow>
      case ids_of_words vocab ids (split_ws line) of Inl e \<Rightarrow> Inl e | Inr middle \<Rightarrow>
      case lookup ids ''</s>'' of Inl e \<Rightarrow> Inl e | Inr final \<Rightarrow>
        Inr ([first] @ middle @ [final]))"

text \<open>The two inner loops of a line: the unigram counts, then the bigram counts.\<close>

definition count_sentence :: "nat list \<Rightarrow> int list \<times> int list list \<Rightarrow> int list \<times> int list list" where
  "count_sentence sentence = (\<lambda>(wcounts, ww).
     (fold (\<lambda>word_id a. vec_add a word_id 1) sentence wcounts,
      fold (\<lambda>(left_word_id, right_word_id) m. mat_add m left_word_id right_word_id 1)
           (zip (butlast sentence) (tl sentence)) ww))"

fun read_lines :: "string set \<Rightarrow> (string \<times> nat) list \<Rightarrow> string list \<Rightarrow>
    int list \<times> int list list \<Rightarrow> error + (int list \<times> int list list)" where
  "read_lines vocab ids [] tables = Inr tables"
| "read_lines vocab ids (line # rest) tables =
     (case sentence_of vocab ids line of
        Inl e \<Rightarrow> Inl e
      | Inr sentence \<Rightarrow> read_lines vocab ids rest (count_sentence sentence tables))"

definition read_word_statistics :: "string set \<Rightarrow> nat \<Rightarrow> (string \<times> nat) list \<Rightarrow> string list \<Rightarrow>
    error + (int list \<times> int list list)" where
  "read_word_statistics vocab V ids corpus_file =
     read_lines vocab ids corpus_file (zeros V, zeros2 V V)"

subsection \<open>\<open>_freq_init_classes\<close>\<close>

text \<open>
  During the initialisation \<open>word_to_class\<close> holds \<open>None\<close> for a word that has no class
  yet. \<open>pin ids word k\<close> is the pair of statements that gives a reserved word its class:
  \<open>self.word_to_class[self.word_ids[word]] = k\<close> and
  \<open>self.class_to_words[k].add(self.word_ids[word])\<close>.
\<close>

definition pin :: "(string \<times> nat) list \<Rightarrow> string \<Rightarrow> nat \<Rightarrow>
    nat option list \<times> nat set list \<Rightarrow> error + (nat option list \<times> nat set list)" where
  "pin ids word k = (\<lambda>(w2c, c2w).
     case lookup ids word of Inl e \<Rightarrow> Inl e | Inr i \<Rightarrow>
     case set_item w2c i (Some k) of Inl e \<Rightarrow> Inl e | Inr w2c' \<Rightarrow>
     case add_member c2w k i of Inl e \<Rightarrow> Inl e | Inr c2w' \<Rightarrow> Inr (w2c', c2w'))"

text \<open>
  The loop over the words in ascending order of their counts; \<open>C\<close> is
  \<open>self.num_classes\<close>. The last statement of the body is
  \<open>class_id = min((class_id + 1) % self.num_classes, 3)\<close>.
\<close>

fun assign_loop :: "nat \<Rightarrow> (nat \<times> int) list \<Rightarrow> nat \<Rightarrow>
    nat option list \<times> nat set list \<Rightarrow> error + (nat option list \<times> nat set list)" where
  "assign_loop C [] class_id tables = Inr tables"
| "assign_loop C ((word_id, count) # rest) class_id (w2c, c2w) =
     (if w2c ! word_id \<noteq> None then assign_loop C rest class_id (w2c, c2w)
      else case set_item w2c word_id (Some class_id) of Inl e \<Rightarrow> Inl e | Inr w2c' \<Rightarrow>
           case add_member c2w class_id word_id of Inl e \<Rightarrow> Inl e | Inr c2w' \<Rightarrow>
             assign_loop C rest (min ((class_id + 1) mod C) 3) (w2c', c2w'))"

text \<open>
  \<open>sorted(enumerate(self.word_counts), key=lambda x: x[1])\<close> is the stable sort
  \<open>sort_key snd\<close>. The number of classes is \<open>num_classes + 3\<close>; \<open>range\<close> of a negative
  number is empty, as \<open>replicate (nat n)\<close> is. The loop visits every word id, so when it
  ends every entry of \<open>word_to_class\<close> is a class id (lemma \<open>assign_loop_assigned\<close>
  below), and the object keeps the list of these ids.
\<close>

definition freq_init_classes :: "(string \<times> nat) list \<Rightarrow> nat \<Rightarrow> int list \<Rightarrow> int \<Rightarrow>
    error + (nat \<times> nat list \<times> nat set list)" where
  "freq_init_classes ids V wcounts n =
     (let C = nat (n + 3);
          w2c = replicate V None;
          c2w = replicate C {}
      in case pin ids ''<s>'' 0 (w2c, c2w) of Inl e \<Rightarrow> Inl e | Inr t1 \<Rightarrow>
         case pin ids ''</s>'' 1 t1 of Inl e \<Rightarrow> Inl e | Inr t2 \<Rightarrow>
         case pin ids ''<UNK>'' 2 t2 of Inl e \<Rightarrow> Inl e | Inr t3 \<Rightarrow>
         case assign_loop C (sort_key snd (enumerate 0 wcounts)) 3 t3 of Inl e \<Rightarrow> Inl e
         | Inr (w2c', c2w') \<Rightarrow> Inr (C, map the w2c', c2w'))"

subsection \<open>\<open>_compute_class_statistics\<close>\<close>

definition class_statistics :: "nat \<Rightarrow> nat \<Rightarrow> int list \<Rightarrow> int list list \<Rightarrow> nat list \<Rightarrow>
    int list \<times> int list list \<times> int list list \<times> int list list" where
  "class_statistics C V wcounts ww w2c =
     (let ccounts = fold (\<lambda>(word_id, class_id) a. vec_add a class_id (wcounts ! word_id))
                         (enumerate 0 w2c) (zeros C);
          (cc, cw, wc) =
            fold (\<lambda>((left_word_id, right_word_id), count) (cc, cw, wc).
                    let left_class_id = w2c ! left_word_id;
                        right_class_id = w2c ! right_word_id
                    in (mat_add cc left_class_id right_class_id count,
                        mat_add cw left_class_id right_word_id count,
                        mat_add wc left_word_id right_class_id count))
                 (ndenumerate ww) (zeros2 C C, zeros2 C V, zeros2 V C)
      in (ccounts, cc, cw, wc))"

definition compute_class_statistics :: "optimizer \<Rightarrow> optimizer" where
  "compute_class_statistics self =
     (case class_statistics (num_classes self) (vocabulary_size self) (word_counts self)
             (ww_counts self) (word_to_class self) of
        (ccounts, cc, cw, wc) \<Rightarrow>
          self\<lparr>class_counts := ccounts, cc_counts := cc, cw_counts := cw, wc_counts := wc\<rparr>)"

subsection \<open>\<open>__init__\<close>\<close>

text \<open>
  Python does not fix the order in which \<open>zip(self.vocabulary, range(...))\<close> iterates
  over the set \<open>self.vocabulary\<close>; the order is the parameter \<open>order\<close>, a list without
  repetition of the words of the vocabulary. The corpus file is the list of its lines and
  is read twice.
\<close>

definition init :: "string list \<Rightarrow> int \<Rightarrow> string list \<Rightarrow> string list option \<Rightarrow> error + optimizer" where
  "init order n corpus_file vocabulary_file =
     (let vocab = read_vocabulary corpus_file vocabulary_file;
          V = card vocab;
          ids = zip order [0..<V]
      in case read_word_statistics vocab V ids corpus_file of Inl e \<Rightarrow> Inl e
         | Inr (wcounts, ww) \<Rightarrow>
         case freq_init_classes ids V wcounts n of Inl e \<Rightarrow> Inl e
         | Inr (C, w2c, c2w) \<Rightarrow>
           Inr (compute_class_statistics
             \<lparr>vocabulary = vocab, vocabulary_size = V, word_ids = ids,
              word_counts = wcounts, ww_counts = ww, num_classes = C,
              word_to_class = w2c, class_to_words = c2w,
              class_counts = [], cc_counts = [], cw_counts = [], wc_counts = []\<rparr>))"

subsection \<open>\<open>log_likelihood\<close>\<close>

definition log_likelihood :: "optimizer \<Rightarrow> real option" where
  "log_likelihood self =
     (case ma_log_times_sum (concat (cc_counts self)) of None \<Rightarrow> None | Some a \<Rightarrow>
      case ma_log_times_sum (word_counts self) of None \<Rightarrow> None | Some b \<Rightarrow>
      case ma_log_times_sum (class_counts self) of None \<Rightarrow> None | Some c \<Rightarrow>
        Some (a + b - 2 * c))"

subsection \<open>\<open>_ll_change\<close> and \<open>_evaluate_move\<close>\<close>

definition ll_change :: "int \<Rightarrow> int \<Rightarrow> npfloat" where
  "ll_change old_count new_count =
     (let result = Fin 0;
          result = (if old_count \<noteq> 0 then fsub result (imul old_count (np_log old_count)) else result);
          result = (if new_count \<noteq> 0 then fadd result (imul new_count (np_log new_count)) else result)
      in result)"

text \<open>
  Lines 134 to 144: the terms of the old and of the new class in
  \<open>class_counts\<close>, computed with \<open>numpy.log\<close> directly.
\<close>

definition class_count_terms :: "optimizer \<Rightarrow> nat \<Rightarrow> nat \<Rightarrow> npfloat" where
  "class_count_terms self word_id new_class_id =
     (let old_class_id = word_to_class self ! word_id;
          old_count = class_counts self ! old_class_id;
          new_count = old_count - word_counts self ! word_id;
          result = imul (2 * old_count) (np_log old_count);
          result = fsub result (imul (2 * new_count) (np_log new_count));
          old_count = class_counts self ! new_class_id;
          new_count = old_count + word_counts self ! word_id;
          result = fadd result (imul (2 * old_count) (np_log old_count));
          result = fsub result (imul (2 * new_count) (np_log new_count))
      in result)"

text \<open>
  \<open>for a, b in xs: body\<close> where \<open>xs\<close> is a one-dimensional array of integers, as in
  lines 146 and 162 (the source does not wrap the array in \<open>enumerate\<close> there). The
  target \<open>a, b\<close> is unpacked from each element; an element is an integer, which cannot
  be unpacked, so the first iteration raises \<open>TypeError\<close> before the body runs. Only an
  empty array lets the loop end.
\<close>

fun for_unpack :: "int list \<Rightarrow> (nat \<Rightarrow> int \<Rightarrow> 'a \<Rightarrow> 'a) \<Rightarrow> 'a \<Rightarrow> error + 'a" where
  "for_unpack [] body acc = Inr acc"
| "for_unpack (x # xs) body acc = Inl TypeError"

text \<open>The bodies of the two loops, lines 147 to 160 and 163 to 176.\<close>

definition wc_body :: "optimizer \<Rightarrow> nat \<Rightarrow> nat \<Rightarrow> nat \<Rightarrow> int \<Rightarrow> npfloat \<Rightarrow> npfloat" where
  "wc_body self old_class_id new_class_id iter_class_id iter_wc_count result =
     (if iter_class_id = old_class_id then result
      else if iter_class_id = new_class_id then result
      else let old_count = cc_counts self ! old_class_id ! iter_class_id;
               new_count = old_count - iter_wc_count;
               result = fadd result (ll_change old_count new_count);
               old_count = cc_counts self ! new_class_id ! iter_class_id;
               new_count = old_count + iter_wc_count
           in fadd result (ll_change old_count new_count))"

definition cw_body :: "optimizer \<Rightarrow> nat \<Rightarrow> nat \<Rightarrow> nat \<Rightarrow> int \<Rightarrow> npfloat \<Rightarrow> npfloat" where
  "cw_body self old_class_id new_class_id iter_class_id iter_cw_count result =
     (if iter_class_id = old_class_id then result
      else if iter_class_id = new_class_id then result
      else let old_count = cc_counts self ! iter_class_id ! old_class_id;
               new_count = old_count - iter_cw_count;
               result = fadd result (ll_change old_count new_count);
               old_count = cc_counts self ! iter_class_id ! new_class_id;
               new_count = old_count + iter_cw_count
           in fadd result (ll_change old_count new_count))"

text \<open>Lines 178 to 208: the four cells whose row and column are the old or the new class.\<close>

definition corner_terms :: "optimizer \<Rightarrow> nat \<Rightarrow> nat \<Rightarrow> nat \<Rightarrow> npfloat \<Rightarrow> npfloat" where
  "corner_terms self word_id old_class_id new_class_id result =
     (let old_count = cc_counts self ! old_class_id ! new_class_id;
          new_count = old_count - wc_counts self ! word_id ! new_class_id
                      + cw_counts self ! old_class_id ! word_id
                      - ww_counts self ! word_id ! word_id;
          result = fadd result (ll_change old_count new_count);
          old_count = cc_counts self ! new_class_id ! old_class_id;
          new_count = old_count - cw_counts self ! new_class_id ! word_id
                      + wc_counts self ! word_id ! old_class_id
                      - ww_counts self ! word_id ! word_id;
          result = fadd result (ll_change old_count new_count);
          old_count = cc_counts self ! old_class_id ! old_class_id;
          new_count = old_count - wc_counts self ! word_id ! old_class_id
                      - cw_counts self ! old_class_id ! word_id
                      + ww_counts self ! word_id ! word_id;
          result = fadd result (ll_change old_count new_count);
          old_count = cc_counts self ! new_class_id ! new_class_id;
          new_count = old_count + wc_counts self ! word_id ! new_class_id
                      + cw_counts self ! new_class_id ! word_id
                      + ww_counts self ! word_id ! word_id
      in fadd result (ll_change old_count new_count))"

definition evaluate_move :: "optimizer \<Rightarrow> nat \<Rightarrow> nat \<Rightarrow> error + npfloat" where
  "evaluate_move self word_id new_class_id =
     (if \<not> word_id < length (word_to_class self) then Inl IndexError
      else let old_class_id = word_to_class self ! word_id in
      if \<not> new_class_id < length (class_counts self) then Inl IndexError
      else let result = class_count_terms self word_id new_class_id in
      case for_unpack (wc_counts self ! word_id)
             (wc_body self old_class_id new_class_id) result of Inl e \<Rightarrow> Inl e | Inr result \<Rightarrow>
      case for_unpack (column (cw_counts self) word_id)
             (cw_body self old_class_id new_class_id) result of Inl e \<Rightarrow> Inl e | Inr result \<Rightarrow>
        Inr (corner_terms self word_id old_class_id new_class_id result))"

subsection \<open>\<open>_move\<close>\<close>

text \<open>The two loops, lines 221 to 228 and 230 to 237, over a row and a column of \<open>ww_counts\<close>.\<close>

definition move_right :: "nat list \<Rightarrow> nat \<Rightarrow> nat \<Rightarrow> nat \<Rightarrow> int list \<Rightarrow>
    int list list \<times> int list list \<Rightarrow> int list list \<times> int list list" where
  "move_right w2c word_id old_class_id new_class_id row =
     fold (\<lambda>(right_word_id, count) (cc, cw).
             if right_word_id = word_id then (cc, cw)
             else let right_class_id = w2c ! right_word_id
                  in (mat_add (mat_add cc old_class_id right_class_id (- count))
                              new_class_id right_class_id count,
                      mat_add (mat_add cw old_class_id right_word_id (- count))
                              new_class_id right_word_id count))
          (enumerate 0 row)"

definition move_left :: "nat list \<Rightarrow> nat \<Rightarrow> nat \<Rightarrow> nat \<Rightarrow> int list \<Rightarrow>
    int list list \<times> int list list \<Rightarrow> int list list \<times> int list list" where
  "move_left w2c word_id old_class_id new_class_id col =
     fold (\<lambda>(left_word_id, count) (cc, wc).
             if left_word_id = word_id then (cc, wc)
             else let left_class_id = w2c ! left_word_id
                  in (mat_add (mat_add cc left_class_id old_class_id (- count))
                              left_class_id new_class_id count,
                      mat_add (mat_add wc left_word_id old_class_id (- count))
                              left_word_id new_class_id count))
          (enumerate 0 col)"

text \<open>
  An exception leaves the method at once: \<open>IndexError\<close> for a word id or a class id
  beyond the tables, \<open>KeyError\<close> when \<open>remove\<close> does not find the word in the set of its
  class. The object a raising call leaves behind is not part of the model.
\<close>

definition move :: "optimizer \<Rightarrow> nat \<Rightarrow> nat \<Rightarrow> error + optimizer" where
  "move self word_id new_class_id =
     (if \<not> word_id < length (word_to_class self) then Inl IndexError
      else let old_class_id = word_to_class self ! word_id;
               word_count = word_counts self ! word_id in
      if \<not> new_class_id < length (class_counts self) then Inl IndexError
      else let ccounts = vec_add (vec_add (class_counts self) old_class_id (- word_count))
                                 new_class_id word_count;
               (cc, cw) = move_right (word_to_class self) word_id old_class_id new_class_id
                            (ww_counts self ! word_id) (cc_counts self, cw_counts self);
               (cc, wc) = move_left (word_to_class self) word_id old_class_id new_class_id
                            (column (ww_counts self) word_id) (cc, wc_counts self);
               count = ww_counts self ! word_id ! word_id;
               cc = mat_add (mat_add cc old_class_id old_class_id (- count))
                            new_class_id new_class_id count;
               cw = mat_add (mat_add cw old_class_id word_id (- count)) new_class_id word_id count;
               wc = mat_add (mat_add wc word_id old_class_id (- count)) word_id new_class_id count
           in if word_id \<notin> class_to_words self ! old_class_id then Inl KeyError
              else let c2w = (class_to_words self)
                               [old_class_id := class_to_words self ! old_class_id - {word_id}];
                       c2w = c2w[new_class_id := insert word_id (c2w ! new_class_id)]
                   in Inr (self\<lparr>class_counts := ccounts, cc_counts := cc, cw_counts := cw,
                                 wc_counts := wc, class_to_words := c2w,
                                 word_to_class := (word_to_class self)[word_id := new_class_id]\<rparr>))"

subsection \<open>The invariants of the data model\<close>

text \<open>The shapes of the word-level tables and of the class assignment.\<close>

definition shaped :: "optimizer \<Rightarrow> bool" where
  "shaped self =
     (length (word_counts self) = vocabulary_size self \<and>
      length (ww_counts self) = vocabulary_size self \<and>
      list_all (\<lambda>row. length row = vocabulary_size self) (ww_counts self) \<and>
      length (word_to_class self) = vocabulary_size self \<and>
      list_all (\<lambda>k. k < num_classes self) (word_to_class self))"

text \<open>The words of class \<open>k\<close> under an assignment.\<close>

definition members :: "nat list \<Rightarrow> nat \<Rightarrow> nat set" where
  "members w2c k = set (filter (\<lambda>w. w2c ! w = k) [0..<length w2c])"

text \<open>
  A consistent object: the four count tables of the classes are what
  \<open>_compute_class_statistics\<close> computes from the word-level tables and the current
  assignment, and \<open>class_to_words\<close> is the inverse of \<open>word_to_class\<close>.
\<close>

definition consistent :: "optimizer \<Rightarrow> bool" where
  "consistent self =
     (shaped self \<and>
      (class_counts self, cc_counts self, cw_counts self, wc_counts self) =
        class_statistics (num_classes self) (vocabulary_size self) (word_counts self)
          (ww_counts self) (word_to_class self) \<and>
      class_to_words self = map (members (word_to_class self)) [0..<num_classes self])"

text \<open>The objects that a construction from the corpus and any sequence of moves produce.\<close>

inductive reachable :: "string list \<Rightarrow> optimizer \<Rightarrow> bool" for corpus_file where
  construct: "distinct order \<Longrightarrow> set order = read_vocabulary corpus_file vocabulary_file \<Longrightarrow>
     init order n corpus_file vocabulary_file = Inr self \<Longrightarrow> reachable corpus_file self"
| step: "reachable corpus_file self \<Longrightarrow> move self word_id new_class_id = Inr self' \<Longrightarrow>
     reachable corpus_file self'"

text \<open>
  The number of tokens of the corpus, the \<open><s>\<close> and \<open></s>\<close> of every line included (an
  unknown word counts as the \<open><UNK>\<close> that replaces it).
\<close>

definition total_tokens :: "string list \<Rightarrow> int" where
  "total_tokens corpus_file = sum_list (map (\<lambda>line. int (length (split_ws line)) + 2) corpus_file)"

subsection \<open>Notions used to state and prove the invariants\<close>

text \<open>
  The class-level counts written as sums over the word ids below \<open>V\<close>: the count of a
  class, of a pair of classes, of a class before a word and of a word before a class,
  under the assignment \<open>w2c\<close>.
\<close>

definition agg_c :: "nat \<Rightarrow> int list \<Rightarrow> nat list \<Rightarrow> nat \<Rightarrow> int" where
  "agg_c V wcounts w2c a = (\<Sum>i<V. if w2c ! i = a then wcounts ! i else 0)"

definition agg_cc :: "nat \<Rightarrow> int list list \<Rightarrow> nat list \<Rightarrow> nat \<Rightarrow> nat \<Rightarrow> int" where
  "agg_cc V ww w2c a b = (\<Sum>i<V. \<Sum>j<V. if w2c ! i = a \<and> w2c ! j = b then ww ! i ! j else 0)"

definition agg_cw :: "nat \<Rightarrow> int list list \<Rightarrow> nat list \<Rightarrow> nat \<Rightarrow> nat \<Rightarrow> int" where
  "agg_cw V ww w2c a j = (\<Sum>i<V. if w2c ! i = a then ww ! i ! j else 0)"

definition agg_wc :: "nat \<Rightarrow> int list list \<Rightarrow> nat list \<Rightarrow> nat \<Rightarrow> nat \<Rightarrow> int" where
  "agg_wc V ww w2c i b = (\<Sum>j<V. if w2c ! j = b then ww ! i ! j else 0)"

text \<open>The array, of one or two dimensions, whose cells are given by a function.\<close>

definition tabulate :: "nat \<Rightarrow> (nat \<Rightarrow> 'a) \<Rightarrow> 'a list" where
  "tabulate n f = map f [0..<n]"

definition tabulate2 :: "nat \<Rightarrow> nat \<Rightarrow> (nat \<Rightarrow> nat \<Rightarrow> 'a) \<Rightarrow> 'a list list" where
  "tabulate2 r c f = map (\<lambda>a. map (f a) [0..<c]) [0..<r]"

text \<open>
  One iteration of a loop of \<open>_move\<close> on one table: nothing for the word that moves,
  otherwise the count \<open>x\<close> leaves the cell \<open>(r1 i, s1 i)\<close> and enters the cell
  \<open>(r2 i, s2 i)\<close>.
\<close>

definition shift_step :: "nat \<Rightarrow> (nat \<Rightarrow> nat) \<Rightarrow> (nat \<Rightarrow> nat) \<Rightarrow> (nat \<Rightarrow> nat) \<Rightarrow> (nat \<Rightarrow> nat) \<Rightarrow>
    nat \<times> int \<Rightarrow> int list list \<Rightarrow> int list list" where
  "shift_step w r1 s1 r2 s2 = (\<lambda>(i, x) m.
     if i = w then m else mat_add (mat_add m (r1 i) (s1 i) (- x)) (r2 i) (s2 i) x)"

text \<open>The tables that \<open>move\<close> computes, one at a time.\<close>

definition moved_c :: "optimizer \<Rightarrow> nat \<Rightarrow> nat \<Rightarrow> int list" where
  "moved_c self w new =
     vec_add (vec_add (class_counts self) (word_to_class self ! w) (- word_counts self ! w))
       new (word_counts self ! w)"

definition moved_cc :: "optimizer \<Rightarrow> nat \<Rightarrow> nat \<Rightarrow> int list list" where
  "moved_cc self w new =
     (let w2c = word_to_class self; old = w2c ! w; x = ww_counts self ! w ! w in
      mat_add (mat_add
        (fold (shift_step w ((!) w2c) (\<lambda>_. old) ((!) w2c) (\<lambda>_. new))
           (enumerate 0 (column (ww_counts self) w))
           (fold (shift_step w (\<lambda>_. old) ((!) w2c) (\<lambda>_. new) ((!) w2c))
              (enumerate 0 (ww_counts self ! w)) (cc_counts self)))
        old old (- x)) new new x)"

definition moved_cw :: "optimizer \<Rightarrow> nat \<Rightarrow> nat \<Rightarrow> int list list" where
  "moved_cw self w new =
     (let old = word_to_class self ! w; x = ww_counts self ! w ! w in
      mat_add (mat_add
        (fold (shift_step w (\<lambda>_. old) (\<lambda>i. i) (\<lambda>_. new) (\<lambda>i. i))
           (enumerate 0 (ww_counts self ! w)) (cw_counts self))
        old w (- x)) new w x)"

definition moved_wc :: "optimizer \<Rightarrow> nat \<Rightarrow> nat \<Rightarrow> int list list" where
  "moved_wc self w new =
     (let old = word_to_class self ! w; x = ww_counts self ! w ! w in
      mat_add (mat_add
        (fold (shift_step w (\<lambda>i. i) (\<lambda>_. old) (\<lambda>i. i) (\<lambda>_. new))
           (enumerate 0 (column (ww_counts self) w)) (wc_counts self))
        w old (- x)) w new x)"

definition moved_c2w :: "optimizer \<Rightarrow> nat \<Rightarrow> nat \<Rightarrow> nat set list" where
  "moved_c2w self w new =
     (let old = word_to_class self ! w;
          c2w = (class_to_words self)[old := class_to_words self ! old - {w}]
      in c2w[new := insert w (c2w ! new)])"

text \<open>The position of a word in the order of the vocabulary: its id.\<close>

fun index_of :: "string list \<Rightarrow> string \<Rightarrow> nat" where
  "index_of [] w = 0"
| "index_of (x # xs) w = (if x = w then 0 else Suc (index_of xs w))"

text \<open>The sentences of the corpus under an id function.\<close>

definition sentence_ids :: "string set \<Rightarrow> (string \<Rightarrow> nat) \<Rightarrow> string \<Rightarrow> nat list" where
  "sentence_ids vocab f line =
     [f ''<s>''] @ map (\<lambda>word. if word \<in> vocab then f word else f ''<UNK>'') (split_ws line) @ [f ''</s>'']"

text \<open>A matrix of \<open>V\<close> rows and \<open>V\<close> columns.\<close>

definition square :: "nat \<Rightarrow> int list list \<Rightarrow> bool" where
  "square V m = (length m = V \<and> list_all (\<lambda>row. length row = V) m)"

text \<open>The state of the class initialisation.\<close>

definition init_inv :: "nat \<Rightarrow> nat \<Rightarrow> nat option list \<times> nat set list \<Rightarrow> bool" where
  "init_inv V C = (\<lambda>(w2c, c2w).
     length w2c = V \<and> length c2w = C \<and>
     (\<forall>k<C. c2w ! k = {w. w < V \<and> w2c ! w = Some k}) \<and>
     (\<forall>w<V. \<forall>k. w2c ! w = Some k \<longrightarrow> k < C))"

text \<open>The three statement pairs that give the reserved words their classes.\<close>

definition pin_all :: "(string \<times> nat) list \<Rightarrow> nat \<Rightarrow> nat \<Rightarrow> error + (nat option list \<times> nat set list)" where
  "pin_all ids V C =
     (case pin ids ''<s>'' 0 (replicate V None, replicate C {}) of Inl e \<Rightarrow> Inl e | Inr t1 \<Rightarrow>
      case pin ids ''</s>'' 1 t1 of Inl e \<Rightarrow> Inl e | Inr t2 \<Rightarrow> pin ids ''<UNK>'' 2 t2)"

text \<open>
  The example: the corpus of the two lines \<open>a b a\<close> and \<open>b a b\<close>, the vocabulary numbered
  \<open><s>\<close>, \<open></s>\<close>, \<open><UNK>\<close>, \<open>a\<close>, \<open>b\<close>, and the object that the construction with
  \<open>num_classes = 1\<close> returns for them (lemma \<open>example_init\<close>).
\<close>

definition example_corpus :: "string list" where
  "example_corpus = [''a b a'', ''b a b'']"

definition example_order :: "string list" where
  "example_order = [''<s>'', ''</s>'', ''<UNK>'', ''a'', ''b'']"

definition example :: optimizer where
  "example = \<lparr>vocabulary = {''<s>'', ''</s>'', ''<UNK>'', ''a'', ''b''}, vocabulary_size = 5,
     word_ids = [(''<s>'', 0), (''</s>'', 1), (''<UNK>'', 2), (''a'', 3), (''b'', 4)],
     word_counts = [2, 2, 0, 3, 3],
     ww_counts = [[0, 0, 0, 1, 1], [0, 0, 0, 0, 0], [0, 0, 0, 0, 0], [0, 1, 0, 0, 2], [0, 1, 0, 2, 0]],
     num_classes = 4, word_to_class = [0, 1, 2, 3, 0],
     class_to_words = [{0, 4}, {1}, {2}, {3}],
     class_counts = [5, 2, 0, 3],
     cc_counts = [[1, 1, 0, 3], [0, 0, 0, 0], [0, 0, 0, 0], [2, 1, 0, 0]],
     cw_counts = [[0, 1, 0, 3, 1], [0, 0, 0, 0, 0], [0, 0, 0, 0, 0], [0, 1, 0, 0, 2]],
     wc_counts = [[1, 0, 0, 1], [0, 0, 0, 0], [0, 0, 0, 0], [2, 1, 0, 0], [0, 1, 0, 2]]\<rparr>"

section \<open>Lemmas\<close>

subsection \<open>Arrays and folds of increments\<close>

lemma length_vec_add [simp]: "length (vec_add a i d) = length a"
  by (simp add: vec_add_def)

lemma nth_vec_add: "j < length a \<Longrightarrow> vec_add a i d ! j = a ! j + (if i = j then d else 0)"
  by (simp add: vec_add_def nth_list_update)

lemma length_mat_add [simp]: "length (mat_add m i j d) = length m"
  by (simp add: mat_add_def)

lemma row_length_mat_add [simp]: "length (mat_add m i j d ! a) = length (m ! a)"
proof (cases "a = i \<and> i < length m")
  case True
  then show ?thesis by (simp add: mat_add_def)
next
  case False
  then have "m[i := (m ! i)[j := m ! i ! j + d]] ! a = m ! a"
    by (cases "a = i") (simp_all add: list_update_beyond)
  then show ?thesis by (simp add: mat_add_def)
qed

lemma nth_mat_add:
  "a < length m \<Longrightarrow> b < length (m ! a) \<Longrightarrow>
   mat_add m i j d ! a ! b = m ! a ! b + (if i = a \<and> j = b then d else 0)"
proof (cases "a = i")
  case True
  assume "a < length m" "b < length (m ! a)"
  with True show ?thesis by (simp add: mat_add_def nth_list_update)
next
  case False
  then show ?thesis by (simp add: mat_add_def)
qed

lemma fold_vec_length:
  assumes "\<And>x a. length (step x a) = length a"
  shows "length (fold step xs a) = length a"
  using assms by (induction xs arbitrary: a) simp_all

lemma fold_vec_nth:
  assumes len: "\<And>x a. length (step x a) = length a"
    and cell: "\<And>x a. j < length a \<Longrightarrow> step x a ! j = a ! j + (\<delta> x :: int)"
    and j: "j < length a"
  shows "fold step xs a ! j = a ! j + sum_list (map \<delta> xs)"
  using j
proof (induction xs arbitrary: a)
  case Nil
  then show ?case by simp
next
  case (Cons x xs)
  have "j < length (step x a)" using Cons.prems len by simp
  then have "fold step xs (step x a) ! j = step x a ! j + sum_list (map \<delta> xs)"
    by (rule Cons.IH)
  then show ?case using cell [OF Cons.prems] by simp
qed

lemma fold_mat_length:
  assumes "\<And>x m. length (step x m) = length m"
  shows "length (fold step xs m) = length m"
  using assms by (induction xs arbitrary: m) simp_all

lemma fold_mat_row_length:
  assumes "\<And>x m. length (step x m ! a) = length (m ! a)"
  shows "length (fold step xs m ! a) = length (m ! a)"
  using assms by (induction xs arbitrary: m) simp_all

lemma fold_mat_nth:
  assumes len: "\<And>x m. length (step x m) = length m"
    and row: "\<And>x m. length (step x m ! a) = length (m ! a)"
    and cell: "\<And>x m. a < length m \<Longrightarrow> b < length (m ! a) \<Longrightarrow> step x m ! a ! b = m ! a ! b + (\<delta> x :: int)"
    and a: "a < length m" and b: "b < length (m ! a)"
  shows "fold step xs m ! a ! b = m ! a ! b + sum_list (map \<delta> xs)"
  using a b
proof (induction xs arbitrary: m)
  case Nil
  then show ?case by simp
next
  case (Cons x xs)
  have "a < length (step x m)" "b < length (step x m ! a)"
    using Cons.prems len row by simp_all
  then have "fold step xs (step x m) ! a ! b = step x m ! a ! b + sum_list (map \<delta> xs)"
    by (rule Cons.IH)
  then show ?case using cell [OF Cons.prems] by simp
qed

lemma fold_pair:
  "fold (\<lambda>x (p, q). (F x p, G x q)) xs (p, q) = (fold F xs p, fold G xs q)"
  by (induction xs arbitrary: p q) simp_all

lemma fold_triple:
  "fold (\<lambda>x (p, q, r). (F x p, G x q, H x r)) xs (p, q, r) = (fold F xs p, fold G xs q, fold H xs r)"
  by (induction xs arbitrary: p q r) simp_all

lemma enumerate_nth: "enumerate 0 xs = map (\<lambda>k. (k, xs ! k)) [0..<length xs]"
proof -
  have "enumerate 0 (map (\<lambda>k. xs ! k) [0..<length xs]) = map (\<lambda>k. (k, xs ! k)) [0..<length xs]"
    by (rule enumerate_map_upt)
  then show ?thesis by (simp add: map_nth)
qed

lemma sum_list_upt: "sum_list (map f [0..<n]) = sum f {..<n}"
  by (simp add: interv_sum_list_conv_sum_set_nat atLeast0LessThan)

lemma sum_list_enumerate:
  "sum_list (map (\<lambda>(i, x). f i x) (enumerate 0 xs)) = (\<Sum>i<length xs. f i (xs ! i))"
  by (simp add: enumerate_nth comp_def sum_list_upt)

lemma sum_list_concat_map: "sum_list (concat xss) = sum_list (map sum_list (xss :: int list list))"
  by (induction xss) simp_all

lemma sum_list_ndenumerate:
  "sum_list (map (\<lambda>((i, j), x). (f i j x :: int)) (ndenumerate m)) =
   (\<Sum>i<length m. \<Sum>j<length (m ! i). f i j (m ! i ! j))"
  by (simp add: ndenumerate_def map_concat sum_list_concat_map comp_def enumerate_nth sum_list_upt)

subsection \<open>What \<open>_compute_class_statistics\<close> computes\<close>

lemma tabulate_eqI:
  assumes "length xs = n" "\<And>a. a < n \<Longrightarrow> xs ! a = f a"
  shows "xs = tabulate n f"
  using assms by (auto simp: tabulate_def intro: nth_equalityI)

lemma tabulate2_eqI:
  assumes "length m = r" "\<And>a. a < r \<Longrightarrow> length (m ! a) = c"
    and "\<And>a b. a < r \<Longrightarrow> b < c \<Longrightarrow> m ! a ! b = f a b"
  shows "m = tabulate2 r c f"
  unfolding tabulate2_def
proof (rule nth_equalityI)
  show "length m = length (map (\<lambda>a. map (f a) [0..<c]) [0..<r])" using assms(1) by simp
next
  fix a assume "a < length m"
  then have a: "a < r" using assms(1) by simp
  have "m ! a = map (f a) [0..<c]"
    using assms(2) [OF a] assms(3) [OF a] by (auto intro: nth_equalityI)
  then show "m ! a = map (\<lambda>a. map (f a) [0..<c]) [0..<r] ! a" using a by simp
qed

lemma length_tabulate [simp]: "length (tabulate n f) = n"
  by (simp add: tabulate_def)

lemma nth_tabulate [simp]: "a < n \<Longrightarrow> tabulate n f ! a = f a"
  by (simp add: tabulate_def)

lemma length_tabulate2 [simp]: "length (tabulate2 r c f) = r"
  by (simp add: tabulate2_def)

lemma row_length_tabulate2 [simp]: "a < r \<Longrightarrow> length (tabulate2 r c f ! a) = c"
  by (simp add: tabulate2_def)

lemma nth_tabulate2 [simp]: "a < r \<Longrightarrow> b < c \<Longrightarrow> tabulate2 r c f ! a ! b = f a b"
  by (simp add: tabulate2_def)

lemma zeros2_simps [simp]:
  "length (zeros2 r c) = r" "a < r \<Longrightarrow> length (zeros2 r c ! a) = c"
  "a < r \<Longrightarrow> b < c \<Longrightarrow> zeros2 r c ! a ! b = 0"
  by (simp_all add: zeros2_def)

lemma zeros_simps [simp]: "length (zeros n) = n" "a < n \<Longrightarrow> zeros n ! a = 0"
  by (simp_all add: zeros_def)

text \<open>A fold of cell increments over the cells of a matrix.\<close>

lemma fold_mat_add_ndenumerate:
  assumes a: "a < length m0" and b: "b < length (m0 ! a)"
  shows "fold (\<lambda>((i, j), x) m. mat_add m (r i j) (s i j) x) (ndenumerate ww) m0 ! a ! b =
         m0 ! a ! b + (\<Sum>i<length ww. \<Sum>j<length (ww ! i). if r i j = a \<and> s i j = b then ww ! i ! j else 0)"
proof -
  let ?step = "\<lambda>((i, j), x) m. mat_add m (r i j) (s i j) x"
  let ?d = "\<lambda>((i, j), x). if r i j = a \<and> s i j = b then x else (0::int)"
  have "fold ?step (ndenumerate ww) m0 ! a ! b = m0 ! a ! b + sum_list (map ?d (ndenumerate ww))"
  proof (rule fold_mat_nth [OF _ _ _ a b])
    show "\<And>x m. length (?step x m) = length m" by (simp split: prod.splits)
    show "\<And>x m. length (?step x m ! a) = length (m ! a)" by (simp split: prod.splits)
    show "\<And>x m. a < length m \<Longrightarrow> b < length (m ! a) \<Longrightarrow> ?step x m ! a ! b = m ! a ! b + ?d x"
      by (simp add: nth_mat_add split: prod.splits)
  qed
  then show ?thesis by (simp add: sum_list_ndenumerate)
qed

lemma fold_mat_add_ndenumerate_shape:
  "length (fold (\<lambda>((i, j), x) m. mat_add m (r i j) (s i j) x) xs m0) = length m0"
  "length (fold (\<lambda>((i, j), x) m. mat_add m (r i j) (s i j) x) xs m0 ! a) = length (m0 ! a)"
proof -
  let ?step = "\<lambda>((i, j), x) m. mat_add m (r i j) (s i j) x"
  show "length (fold ?step xs m0) = length m0"
    by (rule fold_mat_length) (simp split: prod.splits)
  show "length (fold ?step xs m0 ! a) = length (m0 ! a)"
    by (rule fold_mat_row_length) (simp split: prod.splits)
qed

lemma fold_vec_add_enumerate:
  assumes a: "a < length v0"
  shows "fold (\<lambda>(i, k) v. vec_add v k (g i)) (enumerate 0 w2c) v0 ! a =
         v0 ! a + (\<Sum>i<length w2c. if w2c ! i = a then g i else 0)"
proof -
  let ?step = "\<lambda>(i, k) v. vec_add v k (g i)"
  let ?d = "\<lambda>(i, k). if k = a then g i else (0::int)"
  have "fold ?step (enumerate 0 w2c) v0 ! a = v0 ! a + sum_list (map ?d (enumerate 0 w2c))"
  proof (rule fold_vec_nth [OF _ _ a])
    show "\<And>x v. length (?step x v) = length v" by (simp split: prod.splits)
    show "\<And>x v. a < length v \<Longrightarrow> ?step x v ! a = v ! a + ?d x"
      by (simp add: nth_vec_add split: prod.splits)
  qed
  then show ?thesis
    by (simp add: sum_list_enumerate)
qed

lemma fold_vec_add_enumerate_length:
  "length (fold (\<lambda>(i, k) v. vec_add v k (g i)) xs v0) = length v0"
  by (rule fold_vec_length) (simp split: prod.splits)

lemma class_statistics_split:
  "class_statistics C V wcounts ww w2c =
     (fold (\<lambda>(i, k) v. vec_add v k (wcounts ! i)) (enumerate 0 w2c) (zeros C),
      fold (\<lambda>((i, j), x) m. mat_add m (w2c ! i) (w2c ! j) x) (ndenumerate ww) (zeros2 C C),
      fold (\<lambda>((i, j), x) m. mat_add m (w2c ! i) j x) (ndenumerate ww) (zeros2 C V),
      fold (\<lambda>((i, j), x) m. mat_add m i (w2c ! j) x) (ndenumerate ww) (zeros2 V C))"
proof -
  have step: "(\<lambda>((left_word_id, right_word_id), count) (cc, cw, wc).
                    let left_class_id = w2c ! left_word_id;
                        right_class_id = w2c ! right_word_id
                    in (mat_add cc left_class_id right_class_id count,
                        mat_add cw left_class_id right_word_id count,
                        mat_add wc left_word_id right_class_id count)) =
     (\<lambda>x (p, q, r). ((\<lambda>((i, j), x) m. mat_add m (w2c ! i) (w2c ! j) x) x p,
                      (\<lambda>((i, j), x) m. mat_add m (w2c ! i) j x) x q,
                      (\<lambda>((i, j), x) m. mat_add m i (w2c ! j) x) x r))"
    by (auto simp: fun_eq_iff Let_def)
  show ?thesis
    unfolding class_statistics_def step fold_triple by simp
qed

lemma class_statistics_eq:
  assumes ww: "length ww = V" "\<And>i. i < V \<Longrightarrow> length (ww ! i) = V" and w2c: "length w2c = V"
  shows "class_statistics C V wcounts ww w2c =
     (tabulate C (agg_c V wcounts w2c), tabulate2 C C (agg_cc V ww w2c),
      tabulate2 C V (agg_cw V ww w2c), tabulate2 V C (agg_wc V ww w2c))"
proof -
  have inner: "(\<Sum>i<length ww. \<Sum>j<length (ww ! i). f i j) = (\<Sum>i<V. \<Sum>j<V. f i j)" for f :: "nat \<Rightarrow> nat \<Rightarrow> int"
    using ww by simp
  have c: "fold (\<lambda>(i, k) v. vec_add v k (wcounts ! i)) (enumerate 0 w2c) (zeros C) =
      tabulate C (agg_c V wcounts w2c)"
    by (rule tabulate_eqI) (simp_all add: fold_vec_add_enumerate fold_vec_add_enumerate_length agg_c_def w2c)
  have cc: "fold (\<lambda>((i, j), x) m. mat_add m (w2c ! i) (w2c ! j) x) (ndenumerate ww) (zeros2 C C) =
      tabulate2 C C (agg_cc V ww w2c)"
    by (rule tabulate2_eqI)
      (simp_all add: fold_mat_add_ndenumerate fold_mat_add_ndenumerate_shape agg_cc_def inner)
  have cw: "fold (\<lambda>((i, j), x) m. mat_add m (w2c ! i) j x) (ndenumerate ww) (zeros2 C V) =
      tabulate2 C V (agg_cw V ww w2c)"
  proof (rule tabulate2_eqI)
    fix a b assume ab: "a < C" "b < V"
    have "(\<Sum>i<V. \<Sum>j<V. if w2c ! i = a \<and> j = b then ww ! i ! j else 0) =
          (\<Sum>i<V. if w2c ! i = a then ww ! i ! b else 0)"
      using ab by (intro sum.cong refl) (simp add: sum.delta if_distrib cong: if_cong)
    then show "fold (\<lambda>((i, j), x) m. mat_add m (w2c ! i) j x) (ndenumerate ww) (zeros2 C V) ! a ! b =
        agg_cw V ww w2c a b"
      using ab by (simp add: fold_mat_add_ndenumerate agg_cw_def inner)
  qed (simp_all add: fold_mat_add_ndenumerate_shape)
  have wc: "fold (\<lambda>((i, j), x) m. mat_add m i (w2c ! j) x) (ndenumerate ww) (zeros2 V C) =
      tabulate2 V C (agg_wc V ww w2c)"
  proof (rule tabulate2_eqI)
    fix a b assume ab: "a < V" "b < C"
    have "(\<Sum>i<V. \<Sum>j<V. if i = a \<and> w2c ! j = b then ww ! i ! j else 0) =
          (\<Sum>j<V. if w2c ! j = b then ww ! a ! j else 0)"
    proof -
      have "(\<Sum>i<V. \<Sum>j<V. if i = a \<and> w2c ! j = b then ww ! i ! j else 0) =
            (\<Sum>i<V. if i = a then (\<Sum>j<V. if w2c ! j = b then ww ! a ! j else 0) else 0)"
        by (intro sum.cong refl) auto
      also have "\<dots> = (\<Sum>j<V. if w2c ! j = b then ww ! a ! j else 0)"
        using ab by (simp add: sum.delta)
      finally show ?thesis .
    qed
    then show "fold (\<lambda>((i, j), x) m. mat_add m i (w2c ! j) x) (ndenumerate ww) (zeros2 V C) ! a ! b =
        agg_wc V ww w2c a b"
      using ab by (simp add: fold_mat_add_ndenumerate agg_wc_def inner)
  qed (simp_all add: fold_mat_add_ndenumerate_shape)
  show ?thesis unfolding class_statistics_split c cc cw wc ..
qed

subsection \<open>The aggregates under a changed assignment\<close>

lemma sum_if_split:
  fixes g :: "nat \<Rightarrow> int"
  assumes "w < V"
  shows "(\<Sum>i<V. if i = w then x else g i) = x + (\<Sum>i<V. if i = w then 0 else g i)"
proof -
  have "(\<Sum>i<V. if i = w then x else g i) =
        (\<Sum>i<V. (if i = w then x else 0) + (if i = w then 0 else g i))"
    by (intro sum.cong refl) simp
  also have "\<dots> = (\<Sum>i<V. if i = w then x else 0) + (\<Sum>i<V. if i = w then 0 else g i)"
    by (rule sum.distrib)
  also have "(\<Sum>i<V. if i = w then x else 0) = x"
    using assms by (simp add: sum.delta)
  finally show ?thesis .
qed

lemma sum_split_at:
  fixes g :: "nat \<Rightarrow> int"
  assumes "w < V"
  shows "(\<Sum>i<V. g i) = g w + (\<Sum>i<V. if i = w then 0 else g i)"
proof -
  have "(\<Sum>i<V. g i) = (\<Sum>i<V. if i = w then g w else g i)"
    by (intro sum.cong refl) simp
  then show ?thesis using sum_if_split [OF assms, of "g w" g] by simp
qed

lemma agg_c_update:
  assumes w: "w < V" and len: "length c = V"
  shows "agg_c V wcounts (c[w := n]) a =
         agg_c V wcounts c a + (if c ! w = a then - wcounts ! w else 0) + (if n = a then wcounts ! w else 0)"
proof -
  have new: "agg_c V wcounts (c[w := n]) a =
      (if n = a then wcounts ! w else 0) + (\<Sum>i<V. if i = w then 0 else if c ! i = a then wcounts ! i else 0)"
    unfolding agg_c_def
    by (subst sum_split_at [OF w]) (use w len in \<open>auto intro!: sum.cong\<close>)
  have old: "agg_c V wcounts c a =
      (if c ! w = a then wcounts ! w else 0) + (\<Sum>i<V. if i = w then 0 else if c ! i = a then wcounts ! i else 0)"
    unfolding agg_c_def by (subst sum_split_at [OF w]) simp
  show ?thesis unfolding new old by simp
qed

lemma agg_cw_update:
  assumes w: "w < V" and len: "length c = V"
  shows "agg_cw V f (c[w := n]) a j =
         agg_cw V f c a j + (if c ! w = a then - f ! w ! j else 0) + (if n = a then f ! w ! j else 0)"
proof -
  have new: "agg_cw V f (c[w := n]) a j =
      (if n = a then f ! w ! j else 0) + (\<Sum>i<V. if i = w then 0 else if c ! i = a then f ! i ! j else 0)"
    unfolding agg_cw_def
    by (subst sum_split_at [OF w]) (use w len in \<open>auto intro!: sum.cong\<close>)
  have old: "agg_cw V f c a j =
      (if c ! w = a then f ! w ! j else 0) + (\<Sum>i<V. if i = w then 0 else if c ! i = a then f ! i ! j else 0)"
    unfolding agg_cw_def by (subst sum_split_at [OF w]) simp
  show ?thesis unfolding new old by simp
qed

lemma agg_wc_update:
  assumes w: "w < V" and len: "length c = V"
  shows "agg_wc V f (c[w := n]) i b =
         agg_wc V f c i b + (if c ! w = b then - f ! i ! w else 0) + (if n = b then f ! i ! w else 0)"
proof -
  have new: "agg_wc V f (c[w := n]) i b =
      (if n = b then f ! i ! w else 0) + (\<Sum>j<V. if j = w then 0 else if c ! j = b then f ! i ! j else 0)"
    unfolding agg_wc_def
    by (subst sum_split_at [OF w]) (use w len in \<open>auto intro!: sum.cong\<close>)
  have old: "agg_wc V f c i b =
      (if c ! w = b then f ! i ! w else 0) + (\<Sum>j<V. if j = w then 0 else if c ! j = b then f ! i ! j else 0)"
    unfolding agg_wc_def by (subst sum_split_at [OF w]) simp
  show ?thesis unfolding new old by simp
qed

lemma agg_cc_update:
  assumes w: "w < V" and len: "length c = V"
  shows "agg_cc V f (c[w := n]) a b =
         agg_cc V f c a b
         + (\<Sum>r<V. if r = w then 0
                   else (if c ! w = a \<and> c ! r = b then - f ! w ! r else 0)
                      + (if n = a \<and> c ! r = b then f ! w ! r else 0))
         + (\<Sum>l<V. if l = w then 0
                   else (if c ! l = a \<and> c ! w = b then - f ! l ! w else 0)
                      + (if c ! l = a \<and> n = b then f ! l ! w else 0))
         + ((if c ! w = a \<and> c ! w = b then - f ! w ! w else 0)
            + (if n = a \<and> n = b then f ! w ! w else 0))"
    (is "_ = _ + ?R + ?L + ?S")
proof -
  let ?P = "\<lambda>c i j. if c ! i = a \<and> c ! j = b then f ! i ! j else (0::int)"
  let ?c' = "c[w := n]"
  let ?Rt = "\<lambda>r. (if c ! w = a \<and> c ! r = b then - f ! w ! r else 0)
                      + (if n = a \<and> c ! r = b then f ! w ! r else 0)"
  let ?Lt = "\<lambda>l. (if c ! l = a \<and> c ! w = b then - f ! l ! w else 0)
                      + (if c ! l = a \<and> n = b then f ! l ! w else 0)"
  have "agg_cc V f ?c' a b - agg_cc V f c a b = (\<Sum>i<V. \<Sum>j<V. ?P ?c' i j - ?P c i j)"
    unfolding agg_cc_def by (simp add: sum_subtractf)
  also have "\<dots> = (\<Sum>i<V. if i = w then ?S + ?R else ?Lt i)"
  proof (rule sum.cong [OF refl])
    fix i assume "i \<in> {..<V}"
    then have i: "i < V" by simp
    show "(\<Sum>j<V. ?P ?c' i j - ?P c i j) = (if i = w then ?S + ?R else ?Lt i)"
    proof (cases "i = w")
      case True
      have "(\<Sum>j<V. ?P ?c' i j - ?P c i j) = (\<Sum>j<V. if j = w then ?S else ?Rt j)"
        using True w len by (intro sum.cong refl) auto
      also have "\<dots> = ?S + ?R" by (rule sum_if_split [OF w])
      finally show ?thesis using True by simp
    next
      case False
      have "(\<Sum>j<V. ?P ?c' i j - ?P c i j) = (\<Sum>j<V. if j = w then ?Lt i else 0)"
        using False w len i by (intro sum.cong refl) auto
      also have "\<dots> = ?Lt i" using w by (simp add: sum.delta)
      finally show ?thesis using False by simp
    qed
  qed
  also have "\<dots> = (?S + ?R) + ?L" by (rule sum_if_split [OF w])
  finally show ?thesis by simp
qed

subsection \<open>The loops of \<open>_move\<close>\<close>

lemma shift_step_shape [simp]:
  "length (shift_step w r1 s1 r2 s2 p m) = length m"
  "length (shift_step w r1 s1 r2 s2 p m ! a) = length (m ! a)"
  by (simp_all add: shift_step_def split: prod.splits)

lemma fold_shift_step_shape [simp]:
  "length (fold (shift_step w r1 s1 r2 s2) xs m) = length m"
  "length (fold (shift_step w r1 s1 r2 s2) xs m ! a) = length (m ! a)"
  by (rule fold_mat_length, simp) (rule fold_mat_row_length, simp)

lemma fold_shift_step_nth:
  assumes a: "a < length m" and b: "b < length (m ! a)"
  shows "fold (shift_step w r1 s1 r2 s2) (enumerate 0 xs) m ! a ! b =
         m ! a ! b + (\<Sum>i<length xs. if i = w then 0
                         else (if r1 i = a \<and> s1 i = b then - xs ! i else 0)
                            + (if r2 i = a \<and> s2 i = b then xs ! i else 0))"
proof -
  let ?d = "\<lambda>(i, x). if i = w then 0
                         else (if r1 i = a \<and> s1 i = b then - x else 0)
                            + (if r2 i = a \<and> s2 i = b then x else (0::int))"
  have "fold (shift_step w r1 s1 r2 s2) (enumerate 0 xs) m ! a ! b =
        m ! a ! b + sum_list (map ?d (enumerate 0 xs))"
  proof (rule fold_mat_nth [OF _ _ _ a b])
    show "\<And>x m. a < length m \<Longrightarrow> b < length (m ! a) \<Longrightarrow>
      shift_step w r1 s1 r2 s2 x m ! a ! b = m ! a ! b + ?d x"
      by (simp add: shift_step_def nth_mat_add split: prod.splits)
  qed simp_all
  then show ?thesis by (simp add: sum_list_enumerate)
qed

lemma move_right_eq:
  "move_right w2c w old new row (cc, cw) =
     (fold (shift_step w (\<lambda>_. old) ((!) w2c) (\<lambda>_. new) ((!) w2c)) (enumerate 0 row) cc,
      fold (shift_step w (\<lambda>_. old) (\<lambda>i. i) (\<lambda>_. new) (\<lambda>i. i)) (enumerate 0 row) cw)"
proof -
  have "(\<lambda>(right_word_id, count) (cc, cw).
             if right_word_id = w then (cc, cw)
             else let right_class_id = w2c ! right_word_id
                  in (mat_add (mat_add cc old right_class_id (- count)) new right_class_id count,
                      mat_add (mat_add cw old right_word_id (- count)) new right_word_id count)) =
        (\<lambda>x (p, q). (shift_step w (\<lambda>_. old) ((!) w2c) (\<lambda>_. new) ((!) w2c) x p,
                      shift_step w (\<lambda>_. old) (\<lambda>i. i) (\<lambda>_. new) (\<lambda>i. i) x q))"
    by (auto simp: fun_eq_iff Let_def shift_step_def)
  then show ?thesis unfolding move_right_def by (simp only: fold_pair)
qed

lemma move_left_eq:
  "move_left w2c w old new col (cc, wc) =
     (fold (shift_step w ((!) w2c) (\<lambda>_. old) ((!) w2c) (\<lambda>_. new)) (enumerate 0 col) cc,
      fold (shift_step w (\<lambda>i. i) (\<lambda>_. old) (\<lambda>i. i) (\<lambda>_. new)) (enumerate 0 col) wc)"
proof -
  have "(\<lambda>(left_word_id, count) (cc, wc).
             if left_word_id = w then (cc, wc)
             else let left_class_id = w2c ! left_word_id
                  in (mat_add (mat_add cc left_class_id old (- count)) left_class_id new count,
                      mat_add (mat_add wc left_word_id old (- count)) left_word_id new count)) =
        (\<lambda>x (p, q). (shift_step w ((!) w2c) (\<lambda>_. old) ((!) w2c) (\<lambda>_. new) x p,
                      shift_step w (\<lambda>i. i) (\<lambda>_. old) (\<lambda>i. i) (\<lambda>_. new) x q))"
    by (auto simp: fun_eq_iff Let_def shift_step_def)
  then show ?thesis unfolding move_left_def by (simp only: fold_pair)
qed

lemma move_eq:
  "move self w new =
     (if \<not> w < length (word_to_class self) then Inl IndexError
      else if \<not> new < length (class_counts self) then Inl IndexError
      else if w \<notin> class_to_words self ! (word_to_class self ! w) then Inl KeyError
      else Inr (self\<lparr>class_counts := moved_c self w new, cc_counts := moved_cc self w new,
                      cw_counts := moved_cw self w new, wc_counts := moved_wc self w new,
                      class_to_words := moved_c2w self w new,
                      word_to_class := (word_to_class self)[w := new]\<rparr>))"
  by (simp add: move_def Let_def move_right_eq move_left_eq moved_c_def moved_cc_def
      moved_cw_def moved_wc_def moved_c2w_def)

subsection \<open>A move keeps the object consistent\<close>

lemma shapedD:
  assumes "shaped self"
  shows "length (word_counts self) = vocabulary_size self"
    and "length (ww_counts self) = vocabulary_size self"
    and "\<And>i. i < vocabulary_size self \<Longrightarrow> length (ww_counts self ! i) = vocabulary_size self"
    and "length (word_to_class self) = vocabulary_size self"
    and "\<And>i. i < vocabulary_size self \<Longrightarrow> word_to_class self ! i < num_classes self"
  using assms by (simp_all add: shaped_def list_all_length)

lemma consistent_iff:
  "consistent self \<longleftrightarrow>
     shaped self \<and>
     class_counts self = tabulate (num_classes self)
        (agg_c (vocabulary_size self) (word_counts self) (word_to_class self)) \<and>
     cc_counts self = tabulate2 (num_classes self) (num_classes self)
        (agg_cc (vocabulary_size self) (ww_counts self) (word_to_class self)) \<and>
     cw_counts self = tabulate2 (num_classes self) (vocabulary_size self)
        (agg_cw (vocabulary_size self) (ww_counts self) (word_to_class self)) \<and>
     wc_counts self = tabulate2 (vocabulary_size self) (num_classes self)
        (agg_wc (vocabulary_size self) (ww_counts self) (word_to_class self)) \<and>
     class_to_words self = map (members (word_to_class self)) [0..<num_classes self]"
proof (cases "shaped self")
  case True
  show ?thesis
    unfolding consistent_def
    by (subst class_statistics_eq [OF shapedD(2) [OF True] shapedD(3) [OF True] shapedD(4) [OF True]])
       auto
next
  case False
  then show ?thesis by (simp add: consistent_def)
qed

lemma members_update:
  assumes "w < length c"
  shows "members (c[w := new]) k = (if k = new then insert w (members c k) else members c k - {w})"
  using assms by (auto simp: members_def nth_list_update)

lemma mem_members: "w \<in> members c k \<longleftrightarrow> w < length c \<and> c ! w = k"
  by (auto simp: members_def)

lemma moved_c_eq:
  assumes cons: "consistent self" and w: "w < vocabulary_size self"
  defines "V \<equiv> vocabulary_size self" and "C \<equiv> num_classes self"
  shows "moved_c self w new = tabulate C (agg_c V (word_counts self) ((word_to_class self)[w := new]))"
proof (rule tabulate_eqI)
  have sh: "shaped self" and cc: "class_counts self = tabulate C (agg_c V (word_counts self) (word_to_class self))"
    using cons by (simp_all add: consistent_iff V_def C_def)
  show "length (moved_c self w new) = C" by (simp add: moved_c_def cc)
  fix a assume a: "a < C"
  show "moved_c self w new ! a = agg_c V (word_counts self) ((word_to_class self)[w := new]) a"
    using a w shapedD(4) [OF sh]
    by (simp add: moved_c_def cc nth_vec_add agg_c_update V_def)
qed

lemma moved_cw_eq:
  assumes cons: "consistent self" and w: "w < vocabulary_size self"
  defines "V \<equiv> vocabulary_size self" and "C \<equiv> num_classes self"
  shows "moved_cw self w new = tabulate2 C V (agg_cw V (ww_counts self) ((word_to_class self)[w := new]))"
proof (rule tabulate2_eqI)
  have sh: "shaped self" and cw: "cw_counts self = tabulate2 C V (agg_cw V (ww_counts self) (word_to_class self))"
    using cons by (simp_all add: consistent_iff V_def C_def)
  show "length (moved_cw self w new) = C" by (simp add: moved_cw_def cw Let_def)
  show "\<And>a. a < C \<Longrightarrow> length (moved_cw self w new ! a) = V" by (simp add: moved_cw_def cw Let_def)
  fix a j assume a: "a < C" and j: "j < V"
  let ?old = "word_to_class self ! w"
  have row: "length (ww_counts self ! w) = V" using shapedD(3) [OF sh] w by (simp add: V_def)
  have "(\<Sum>i<V. if i = w then 0
           else (if ?old = a \<and> i = j then - ww_counts self ! w ! i else 0)
              + (if new = a \<and> i = j then ww_counts self ! w ! i else 0))
        + (if ?old = a \<and> w = j then - ww_counts self ! w ! w else 0)
        + (if new = a \<and> w = j then ww_counts self ! w ! w else 0)
        = (if ?old = a then - ww_counts self ! w ! j else 0) + (if new = a then ww_counts self ! w ! j else 0)"
  proof (cases "j = w")
    case True
    then have "(\<Sum>i<V. if i = w then 0
           else (if ?old = a \<and> i = j then - ww_counts self ! w ! i else 0)
              + (if new = a \<and> i = j then ww_counts self ! w ! i else 0)) = 0"
      by (intro sum.neutral) auto
    then show ?thesis using True by simp
  next
    case False
    have "(\<Sum>i<V. if i = w then 0
           else (if ?old = a \<and> i = j then - ww_counts self ! w ! i else 0)
              + (if new = a \<and> i = j then ww_counts self ! w ! i else 0))
        = (\<Sum>i<V. if i = j then (if ?old = a then - ww_counts self ! w ! j else 0)
              + (if new = a then ww_counts self ! w ! j else 0) else 0)"
      using False by (intro sum.cong refl) auto
    also have "\<dots> = (if ?old = a then - ww_counts self ! w ! j else 0)
              + (if new = a then ww_counts self ! w ! j else 0)"
      using j by (simp add: sum.delta)
    finally show ?thesis using False by simp
  qed
  then show "moved_cw self w new ! a ! j = agg_cw V (ww_counts self) ((word_to_class self)[w := new]) a j"
    using a j w shapedD(4) [OF sh] row
    by (simp add: moved_cw_def Let_def cw nth_mat_add fold_shift_step_nth agg_cw_update V_def)
qed

lemma moved_wc_eq:
  assumes cons: "consistent self" and w: "w < vocabulary_size self"
  defines "V \<equiv> vocabulary_size self" and "C \<equiv> num_classes self"
  shows "moved_wc self w new = tabulate2 V C (agg_wc V (ww_counts self) ((word_to_class self)[w := new]))"
proof (rule tabulate2_eqI)
  have sh: "shaped self" and wc: "wc_counts self = tabulate2 V C (agg_wc V (ww_counts self) (word_to_class self))"
    using cons by (simp_all add: consistent_iff V_def C_def)
  show "length (moved_wc self w new) = V" by (simp add: moved_wc_def wc Let_def)
  show "\<And>a. a < V \<Longrightarrow> length (moved_wc self w new ! a) = C" by (simp add: moved_wc_def wc Let_def)
  fix i b assume i: "i < V" and b: "b < C"
  let ?old = "word_to_class self ! w"
  have col: "length (column (ww_counts self) w) = V" "\<And>l. l < V \<Longrightarrow> column (ww_counts self) w ! l = ww_counts self ! l ! w"
    using shapedD(2) [OF sh] by (simp_all add: V_def column_def)
  have "(\<Sum>l<V. if l = w then 0
           else (if l = i \<and> ?old = b then - ww_counts self ! l ! w else 0)
              + (if l = i \<and> new = b then ww_counts self ! l ! w else 0))
        + (if w = i \<and> ?old = b then - ww_counts self ! w ! w else 0)
        + (if w = i \<and> new = b then ww_counts self ! w ! w else 0)
        = (if ?old = b then - ww_counts self ! i ! w else 0) + (if new = b then ww_counts self ! i ! w else 0)"
  proof (cases "i = w")
    case True
    then have "(\<Sum>l<V. if l = w then 0
           else (if l = i \<and> ?old = b then - ww_counts self ! l ! w else 0)
              + (if l = i \<and> new = b then ww_counts self ! l ! w else 0)) = 0"
      by (intro sum.neutral) auto
    then show ?thesis using True by simp
  next
    case False
    have "(\<Sum>l<V. if l = w then 0
           else (if l = i \<and> ?old = b then - ww_counts self ! l ! w else 0)
              + (if l = i \<and> new = b then ww_counts self ! l ! w else 0))
        = (\<Sum>l<V. if l = i then (if ?old = b then - ww_counts self ! i ! w else 0)
              + (if new = b then ww_counts self ! i ! w else 0) else 0)"
      using False by (intro sum.cong refl) auto
    also have "\<dots> = (if ?old = b then - ww_counts self ! i ! w else 0)
              + (if new = b then ww_counts self ! i ! w else 0)"
      using i by (simp add: sum.delta)
    finally show ?thesis using False by simp
  qed
  moreover have "(\<Sum>l<V. if l = w then 0
           else (if l = i \<and> ?old = b then - column (ww_counts self) w ! l else 0)
              + (if l = i \<and> new = b then column (ww_counts self) w ! l else 0)) =
      (\<Sum>l<V. if l = w then 0
           else (if l = i \<and> ?old = b then - ww_counts self ! l ! w else 0)
              + (if l = i \<and> new = b then ww_counts self ! l ! w else 0))"
    by (intro sum.cong refl) (simp add: col)
  ultimately show "moved_wc self w new ! i ! b = agg_wc V (ww_counts self) ((word_to_class self)[w := new]) i b"
    using i b w shapedD(4) [OF sh] col(1)
    by (simp add: moved_wc_def Let_def wc nth_mat_add fold_shift_step_nth agg_wc_update V_def)
qed

lemma moved_cc_eq:
  assumes cons: "consistent self" and w: "w < vocabulary_size self"
  defines "V \<equiv> vocabulary_size self" and "C \<equiv> num_classes self"
  shows "moved_cc self w new = tabulate2 C C (agg_cc V (ww_counts self) ((word_to_class self)[w := new]))"
proof (rule tabulate2_eqI)
  have sh: "shaped self" and cc: "cc_counts self = tabulate2 C C (agg_cc V (ww_counts self) (word_to_class self))"
    using cons by (simp_all add: consistent_iff V_def C_def)
  show "length (moved_cc self w new) = C" by (simp add: moved_cc_def cc Let_def)
  show "\<And>a. a < C \<Longrightarrow> length (moved_cc self w new ! a) = C" by (simp add: moved_cc_def cc Let_def)
  fix a b assume a: "a < C" and b: "b < C"
  let ?old = "word_to_class self ! w"
  let ?c = "word_to_class self"
  have col: "length (column (ww_counts self) w) = V" "\<And>l. l < V \<Longrightarrow> column (ww_counts self) w ! l = ww_counts self ! l ! w"
    using shapedD(2) [OF sh] by (simp_all add: V_def column_def)
  have row: "length (ww_counts self ! w) = V" using shapedD(3) [OF sh] w by (simp add: V_def)
  have L: "(\<Sum>l<V. if l = w then 0
           else (if ?c ! l = a \<and> ?old = b then - column (ww_counts self) w ! l else 0)
              + (if ?c ! l = a \<and> new = b then column (ww_counts self) w ! l else 0)) =
      (\<Sum>l<V. if l = w then 0
           else (if ?c ! l = a \<and> ?old = b then - ww_counts self ! l ! w else 0)
              + (if ?c ! l = a \<and> new = b then ww_counts self ! l ! w else 0))"
    by (intro sum.cong refl) (simp add: col)
  show "moved_cc self w new ! a ! b = agg_cc V (ww_counts self) ((word_to_class self)[w := new]) a b"
    using a b w shapedD(4) [OF sh] col(1) row
    by (simp add: moved_cc_def Let_def cc nth_mat_add fold_shift_step_nth agg_cc_update V_def L [unfolded V_def])
qed

lemma moved_c2w_eq:
  assumes cons: "consistent self" and w: "w < vocabulary_size self" and new: "new < num_classes self"
  shows "moved_c2w self w new = map (members ((word_to_class self)[w := new])) [0..<num_classes self]"
proof -
  have sh: "shaped self"
    and c2w: "class_to_words self = map (members (word_to_class self)) [0..<num_classes self]"
    using cons by (simp_all add: consistent_iff)
  have len: "w < length (word_to_class self)" using w shapedD(4) [OF sh] by simp
  have old: "word_to_class self ! w < num_classes self" using shapedD(5) [OF sh w] .
  show ?thesis
  proof (rule nth_equalityI)
    show "length (moved_c2w self w new) = length (map (members ((word_to_class self)[w := new])) [0..<num_classes self])"
      by (simp add: moved_c2w_def Let_def c2w)
  next
    fix k assume "k < length (moved_c2w self w new)"
    then have k: "k < num_classes self" by (simp add: moved_c2w_def Let_def c2w)
    show "moved_c2w self w new ! k = map (members ((word_to_class self)[w := new])) [0..<num_classes self] ! k"
      using k old new len
      by (auto simp: moved_c2w_def Let_def c2w members_update nth_list_update mem_members)
  qed
qed

lemma move_consistent:
  assumes cons: "consistent self" and w: "w < vocabulary_size self" and new: "new < num_classes self"
  shows "\<exists>self'. move self w new = Inr self' \<and> consistent self' \<and>
           word_to_class self' = (word_to_class self)[w := new] \<and>
           word_counts self' = word_counts self \<and> ww_counts self' = ww_counts self \<and>
           vocabulary_size self' = vocabulary_size self \<and> num_classes self' = num_classes self \<and>
           vocabulary self' = vocabulary self \<and> word_ids self' = word_ids self"
proof -
  have sh: "shaped self"
    and cc: "class_counts self = tabulate (num_classes self)
        (agg_c (vocabulary_size self) (word_counts self) (word_to_class self))"
    and c2w: "class_to_words self = map (members (word_to_class self)) [0..<num_classes self]"
    using cons by (simp_all add: consistent_iff)
  have len: "w < length (word_to_class self)" using w shapedD(4) [OF sh] by simp
  have old: "word_to_class self ! w < num_classes self" using shapedD(5) [OF sh w] .
  have mem: "w \<in> class_to_words self ! (word_to_class self ! w)"
    using old len by (simp add: c2w mem_members)
  let ?self' = "self\<lparr>class_counts := moved_c self w new, cc_counts := moved_cc self w new,
                      cw_counts := moved_cw self w new, wc_counts := moved_wc self w new,
                      class_to_words := moved_c2w self w new,
                      word_to_class := (word_to_class self)[w := new]\<rparr>"
  have mv: "move self w new = Inr ?self'"
    using len new mem by (simp add: move_eq cc)
  have sh': "shaped ?self'"
    using sh new by (auto simp: shaped_def list_all_iff dest: set_update_subset_insert [THEN subsetD])
  have "consistent ?self'"
    unfolding consistent_iff
    using sh' moved_c_eq [OF cons w] moved_cc_eq [OF cons w] moved_cw_eq [OF cons w]
      moved_wc_eq [OF cons w] moved_c2w_eq [OF cons w new]
    by simp
  then show ?thesis using mv by simp
qed

lemma consistent_determined:
  assumes "consistent s" "consistent t"
    and "vocabulary s = vocabulary t" "vocabulary_size s = vocabulary_size t"
    and "word_ids s = word_ids t" "word_counts s = word_counts t" "ww_counts s = ww_counts t"
    and "num_classes s = num_classes t" "word_to_class s = word_to_class t"
  shows "s = t"
  using assms by (intro optimizer.equality) (simp_all add: consistent_iff)

lemma move_there_and_back:
  assumes cons: "consistent self" and w: "w < vocabulary_size self" and new: "new < num_classes self"
  shows "\<exists>self1. move self w new = Inr self1 \<and> move self1 w (word_to_class self ! w) = Inr self"
proof -
  have sh: "shaped self" using cons by (simp add: consistent_iff)
  have old: "word_to_class self ! w < num_classes self" using shapedD(5) [OF sh w] .
  obtain self1 where m1: "move self w new = Inr self1" and c1: "consistent self1"
    and f1: "word_to_class self1 = (word_to_class self)[w := new]"
      "word_counts self1 = word_counts self" "ww_counts self1 = ww_counts self"
      "vocabulary_size self1 = vocabulary_size self" "num_classes self1 = num_classes self"
      "vocabulary self1 = vocabulary self" "word_ids self1 = word_ids self"
    using move_consistent [OF cons w new] by blast
  have w1: "w < vocabulary_size self1" and old1: "word_to_class self ! w < num_classes self1"
    using w old f1 by simp_all
  obtain self2 where m2: "move self1 w (word_to_class self ! w) = Inr self2" and c2: "consistent self2"
    and f2: "word_to_class self2 = (word_to_class self1)[w := word_to_class self ! w]"
      "word_counts self2 = word_counts self1" "ww_counts self2 = ww_counts self1"
      "vocabulary_size self2 = vocabulary_size self1" "num_classes self2 = num_classes self1"
      "vocabulary self2 = vocabulary self1" "word_ids self2 = word_ids self1"
    using move_consistent [OF c1 w1 old1] by blast
  have "word_to_class self2 = word_to_class self" using f1 f2 by simp
  then have "self2 = self"
    using f1 f2 by (intro consistent_determined [OF c2 cons]) simp_all
  then show ?thesis using m1 m2 by simp
qed

subsection \<open>The evaluation of a move\<close>

lemma evaluate_move_raises:
  assumes cons: "consistent self" and w: "w < vocabulary_size self" and new: "new < num_classes self"
  shows "evaluate_move self w new = Inl TypeError"
proof -
  have sh: "shaped self"
    and cc: "class_counts self = tabulate (num_classes self)
        (agg_c (vocabulary_size self) (word_counts self) (word_to_class self))"
    and wc: "wc_counts self = tabulate2 (vocabulary_size self) (num_classes self)
        (agg_wc (vocabulary_size self) (ww_counts self) (word_to_class self))"
    using cons by (simp_all add: consistent_iff)
  have "length (wc_counts self ! w) = num_classes self" using w by (simp add: wc)
  then obtain x xs where "wc_counts self ! w = x # xs" using new by (cases "wc_counts self ! w") auto
  then show ?thesis
    using w new shapedD(4) [OF sh] by (simp add: evaluate_move_def Let_def cc)
qed

subsection \<open>The dictionary of the word ids\<close>

lemma zip_upt_Cons:
  "zip (x # xs) [k..<k + length (x # xs)] = (x, k) # zip xs [Suc k..<Suc k + length xs]"
  by (simp add: upt_conv_Cons del: upt_Suc)

lemma lookup_zip_upt:
  "w \<in> set xs \<Longrightarrow> lookup (zip xs [k..<k + length xs]) w = Inr (k + index_of xs w)"
proof (induction xs arbitrary: k)
  case Nil
  then show ?case by simp
next
  case (Cons x xs)
  show ?case
  proof (cases "x = w")
    case True
    then show ?thesis unfolding zip_upt_Cons by simp
  next
    case False
    then have "w \<in> set xs" using Cons.prems by simp
    from Cons.IH [OF this, of "Suc k"] False show ?thesis unfolding zip_upt_Cons by simp
  qed
qed

lemma lookup_index_of:
  "w \<in> set order \<Longrightarrow> lookup (zip order [0..<length order]) w = Inr (index_of order w)"
  using lookup_zip_upt [of w order 0] by simp

lemma index_of_less: "w \<in> set order \<Longrightarrow> index_of order w < length order"
  by (induction order) auto

lemma nth_index_of: "w \<in> set order \<Longrightarrow> order ! index_of order w = w"
  by (induction order) auto

lemma index_of_inj:
  assumes "v \<in> set order" "w \<in> set order" "index_of order v = index_of order w"
  shows "v = w"
  using assms nth_index_of by metis

lemma ids_of_words_eq:
  assumes "\<And>w. w \<in> vocab \<Longrightarrow> lookup ids w = Inr (f w)" and "''<UNK>'' \<in> vocab"
  shows "ids_of_words vocab ids ws = Inr (map (\<lambda>word. if word \<in> vocab then f word else f ''<UNK>'') ws)"
  using assms by (induction ws) simp_all

lemma sentence_of_eq:
  assumes "\<And>w. w \<in> vocab \<Longrightarrow> lookup ids w = Inr (f w)"
    and "''<s>'' \<in> vocab" "''</s>'' \<in> vocab" "''<UNK>'' \<in> vocab"
  shows "sentence_of vocab ids line = Inr (sentence_ids vocab f line)"
  using assms by (simp add: sentence_of_def sentence_ids_def ids_of_words_eq [where f = f])

lemma read_lines_eq:
  assumes "\<And>w. w \<in> vocab \<Longrightarrow> lookup ids w = Inr (f w)"
    and "''<s>'' \<in> vocab" "''</s>'' \<in> vocab" "''<UNK>'' \<in> vocab"
  shows "read_lines vocab ids lines tables =
         Inr (fold (\<lambda>line. count_sentence (sentence_ids vocab f line)) lines tables)"
  using assms by (induction lines arbitrary: tables) (simp_all add: sentence_of_eq [where f = f])

lemma sentence_ids_bound:
  assumes "\<And>w. w \<in> vocab \<Longrightarrow> f w < V"
    and "''<s>'' \<in> vocab" "''</s>'' \<in> vocab" "''<UNK>'' \<in> vocab"
  shows "list_all (\<lambda>i. i < V) (sentence_ids vocab f line)"
  using assms by (auto simp: sentence_ids_def list_all_iff)

lemma length_sentence_ids: "length (sentence_ids vocab f line) = length (split_ws line) + 2"
  by (simp add: sentence_ids_def)

subsection \<open>The word statistics\<close>

text \<open>Sums of the tables under the increments.\<close>

lemma sum_list_vec_add: "i < length a \<Longrightarrow> sum_list (vec_add a i d) = sum_list a + d"
  unfolding vec_add_def
proof (induction a arbitrary: i)
  case Nil
  then show ?case by simp
next
  case (Cons x a)
  then show ?case by (cases i) simp_all
qed

lemma sum2_mat_add:
  assumes "i < length m" "j < length (m ! i)"
  shows "sum2 (mat_add m i j d) = sum2 m + d"
proof -
  have "map sum_list (mat_add m i j d) = (map sum_list m)[i := sum_list (m ! i) + d]"
    using assms sum_list_vec_add [of j "m ! i" d]
    by (simp add: mat_add_def map_update vec_add_def)
  then have "sum2 (mat_add m i j d) = sum_list (vec_add (map sum_list m) i d)"
    using assms by (simp add: sum2_def vec_add_def)
  then show ?thesis using assms by (simp add: sum_list_vec_add sum2_def)
qed

lemma square_mat_add: "square V m \<Longrightarrow> square V (mat_add m i j d)"
  by (auto simp: square_def list_all_length simp del: row_length_mat_add) (metis row_length_mat_add)

lemma square_row: "square V m \<Longrightarrow> i < V \<Longrightarrow> length (m ! i) = V"
  by (simp add: square_def list_all_length)

lemma square_zeros2: "square V (zeros2 V V)"
  by (simp add: square_def zeros2_def list_all_iff)

lemma fold_unigrams:
  assumes "list_all (\<lambda>i. i < length a) s"
  shows "length (fold (\<lambda>word_id a. vec_add a word_id 1) s a) = length a \<and>
         sum_list (fold (\<lambda>word_id a. vec_add a word_id 1) s a) = sum_list a + int (length s)"
  using assms by (induction s arbitrary: a) (simp_all add: sum_list_vec_add)

lemma fold_bigrams:
  assumes "square V m" "list_all (\<lambda>(l, r). l < V \<and> r < V) ps"
  shows "square V (fold (\<lambda>(l, r) m. mat_add m l r 1) ps m) \<and>
         sum2 (fold (\<lambda>(l, r) m. mat_add m l r 1) ps m) = sum2 m + int (length ps)"
  using assms
proof (induction ps arbitrary: m)
  case Nil
  then show ?case by simp
next
  case (Cons p ps)
  obtain l r where p: "p = (l, r)" by (cases p)
  have lr: "l < V" "r < V" and rest: "list_all (\<lambda>(l, r). l < V \<and> r < V) ps"
    using Cons.prems(2) p by simp_all
  have sq: "square V (mat_add m l r 1)" using Cons.prems(1) by (rule square_mat_add)
  have "sum2 (mat_add m l r 1) = sum2 m + 1"
    using Cons.prems(1) lr by (intro sum2_mat_add) (simp_all add: square_def square_row [OF Cons.prems(1)])
  then show ?case using Cons.IH [OF sq rest] p by simp
qed

lemma count_sentence_sums:
  assumes "length wcounts = V" "square V ww" "list_all (\<lambda>i. i < V) s" "s \<noteq> []"
  shows "case count_sentence s (wcounts, ww) of (wcounts', ww') \<Rightarrow>
           length wcounts' = V \<and> square V ww' \<and>
           sum_list wcounts' = sum_list wcounts + int (length s) \<and>
           sum2 ww' = sum2 ww + int (length s) - 1"
proof -
  have "l < V \<and> r < V" if "(l, r) \<in> set (zip (butlast s) (tl s))" for l r
  proof -
    have "l \<in> set s" using that by (meson in_set_butlastD set_zip_leftD)
    moreover have "r \<in> set s" using that assms(4) by (meson list.set_sel(2) set_zip_rightD)
    ultimately show ?thesis using assms(3) by (simp add: list_all_iff)
  qed
  then have pairs: "list_all (\<lambda>(l, r). l < V \<and> r < V) (zip (butlast s) (tl s))"
    by (auto simp: list_all_iff)
  have len: "length (zip (butlast s) (tl s)) = length s - 1" by simp
  show ?thesis
    using fold_unigrams [of wcounts s] fold_bigrams [OF assms(2) pairs] assms(1,3,4) len
    by (cases s) (simp_all add: count_sentence_def)
qed

lemma fold_count_sentence:
  assumes ids: "\<And>w. w \<in> vocab \<Longrightarrow> f w < V"
    and res: "''<s>'' \<in> vocab" "''</s>'' \<in> vocab" "''<UNK>'' \<in> vocab"
    and sh: "length wcounts = V" "square V ww"
  shows "case fold (\<lambda>line. count_sentence (sentence_ids vocab f line)) lines (wcounts, ww) of
           (wcounts', ww') \<Rightarrow>
             length wcounts' = V \<and> square V ww' \<and>
             sum_list wcounts' = sum_list wcounts + total_tokens lines \<and>
             sum2 ww' = sum2 ww + total_tokens lines - int (length lines)"
  using sh
proof (induction lines arbitrary: wcounts ww)
  case Nil
  then show ?case by (simp add: total_tokens_def)
next
  case (Cons line lines)
  let ?s = "sentence_ids vocab f line"
  obtain wc1 ww1 where step: "count_sentence ?s (wcounts, ww) = (wc1, ww1)"
    by (cases "count_sentence ?s (wcounts, ww)")
  have ne: "?s \<noteq> []" by (simp add: sentence_ids_def)
  have one: "length wc1 = V \<and> square V ww1 \<and>
           sum_list wc1 = sum_list wcounts + int (length ?s) \<and>
           sum2 ww1 = sum2 ww + int (length ?s) - 1"
  proof -
    have b: "list_all (\<lambda>i. i < V) ?s" by (rule sentence_ids_bound [OF ids res])
    show ?thesis using count_sentence_sums [OF Cons.prems(1) Cons.prems(2) b ne] step by simp
  qed
  then have sh1: "length wc1 = V" "square V ww1" by simp_all
  show ?case
    using Cons.IH [OF sh1] one step
    by (simp add: total_tokens_def length_sentence_ids split: prod.splits)
qed

lemma read_word_statistics_sums:
  assumes look: "\<And>w. w \<in> vocab \<Longrightarrow> lookup ids w = Inr (f w)"
    and ids: "\<And>w. w \<in> vocab \<Longrightarrow> f w < V"
    and res: "''<s>'' \<in> vocab" "''</s>'' \<in> vocab" "''<UNK>'' \<in> vocab"
  shows "\<exists>wcounts ww. read_word_statistics vocab V ids corpus_file = Inr (wcounts, ww) \<and>
           length wcounts = V \<and> square V ww \<and>
           sum_list wcounts = total_tokens corpus_file \<and>
           sum2 ww = total_tokens corpus_file - int (length corpus_file)"
proof -
  have z: "length (zeros V) = V" "square V (zeros2 V V)" "sum_list (zeros V) = 0" "sum2 (zeros2 V V) = 0"
    by (simp_all add: square_zeros2) (simp_all add: zeros_def zeros2_def sum2_def sum_list_replicate)
  obtain wcounts ww where
    f: "fold (\<lambda>line. count_sentence (sentence_ids vocab f line)) corpus_file (zeros V, zeros2 V V) = (wcounts, ww)"
    by (cases "fold (\<lambda>line. count_sentence (sentence_ids vocab f line)) corpus_file (zeros V, zeros2 V V)")
  show ?thesis
    using fold_count_sentence [where f = f and vocab = vocab and V = V and lines = corpus_file, OF ids res z(1,2)] f z(3,4)
    by (simp add: read_word_statistics_def read_lines_eq [OF look res])
qed

subsection \<open>The initialisation of the classes\<close>

lemma freq_init_classes_alt:
  "freq_init_classes ids V wcounts n =
     (case pin_all ids V (nat (n + 3)) of Inl e \<Rightarrow> Inl e | Inr t3 \<Rightarrow>
      case assign_loop (nat (n + 3)) (sort_key snd (enumerate 0 wcounts)) 3 t3 of Inl e \<Rightarrow> Inl e
      | Inr (w2c', c2w') \<Rightarrow> Inr (nat (n + 3), map the w2c', c2w'))"
  by (simp add: freq_init_classes_def pin_all_def Let_def split: sum.splits)

lemma pin_all_eq:
  assumes "lookup ids ''<s>'' = Inr s" "lookup ids ''</s>'' = Inr e" "lookup ids ''<UNK>'' = Inr u"
    and "s < V" "e < V" "u < V"
  shows "pin_all ids V C =
     (if C < 3 then Inl IndexError
      else Inr ((replicate V None)[s := Some 0, e := Some 1, u := Some 2],
                (replicate C {})[0 := {s}, 1 := {e}, 2 := {u}]))"
  using assms by (auto simp: pin_all_def pin_def set_item_def add_member_def)

lemma pinned_inv:
  assumes "s < V" "e < V" "u < V" "s \<noteq> e" "s \<noteq> u" "e \<noteq> u" "3 \<le> C"
  shows "init_inv V C ((replicate V None)[s := Some 0, e := Some 1, u := Some 2],
                (replicate C {})[0 := {s}, 1 := {e}, 2 := {u}])"
  unfolding init_inv_def using assms
  by (auto simp: nth_list_update split: if_splits)

lemma nth_list_update_if:
  "j < length xs \<Longrightarrow> xs[i := x] ! j = (if i = j then x else xs ! j)"
  by (cases "i = j") simp_all

lemma pinned_None:
  assumes "w < V"
  shows "(replicate V None)[s := Some 0, e := Some 1, u := Some (2::nat)] ! w = None \<longleftrightarrow> w \<noteq> s \<and> w \<noteq> e \<and> w \<noteq> u"
  using assms by (auto simp: nth_list_update_if)

lemma assign_loop_sound:
  assumes "assign_loop C xs class_id t = Inr t'" "init_inv V C t" "list_all (\<lambda>p. fst p < V) xs"
  shows "init_inv V C t' \<and> (\<forall>p\<in>set xs. fst t' ! fst p \<noteq> None) \<and>
         (\<forall>w<V. fst t ! w \<noteq> None \<longrightarrow> fst t' ! w = fst t ! w)"
  using assms
proof (induction C xs class_id t rule: assign_loop.induct)
  case (1 C class_id tables)
  then show ?case by simp
next
  case (2 C word_id count rest class_id w2c c2w)
  have wid: "word_id < V" and rest: "list_all (\<lambda>p. fst p < V) rest"
    using "2.prems"(3) by simp_all
  show ?case
  proof (cases "w2c ! word_id \<noteq> None")
    case True
    then have run: "assign_loop C rest class_id (w2c, c2w) = Inr t'" using "2.prems"(1) by simp
    from "2.IH"(1) [OF True run "2.prems"(2) rest] True wid show ?thesis by auto
  next
    case False
    then have none: "w2c ! word_id = None" by simp
    have len: "length w2c = V" "length c2w = C" using "2.prems"(2) by (simp_all add: init_inv_def)
    have cid: "class_id < C"
      using "2.prems"(1) none wid len by (auto simp: set_item_def add_member_def split: if_splits)
    let ?w2c = "w2c[word_id := Some class_id]"
    let ?c2w = "c2w[class_id := insert word_id (c2w ! class_id)]"
    have s1: "set_item w2c word_id (Some class_id) = Inr ?w2c" using wid len by (simp add: set_item_def)
    have s2: "add_member c2w class_id word_id = Inr ?c2w" using cid len by (simp add: add_member_def)
    have run: "assign_loop C rest (min ((class_id + 1) mod C) 3) (?w2c, ?c2w) = Inr t'"
      using "2.prems"(1) none s1 s2 by simp
    have inv: "init_inv V C (?w2c, ?c2w)"
      using "2.prems"(2) wid cid none unfolding init_inv_def
      by (auto simp: nth_list_update split: if_splits)
    from "2.IH"(2) [OF False s1 s2 run inv rest]
    have ih: "init_inv V C t'" "\<forall>p\<in>set rest. fst t' ! fst p \<noteq> None"
      "\<forall>w<V. ?w2c ! w \<noteq> None \<longrightarrow> fst t' ! w = ?w2c ! w" by simp_all
    have "fst t' ! word_id = Some class_id" using ih(3) wid len by simp
    moreover have "\<forall>w<V. w2c ! w \<noteq> None \<longrightarrow> fst t' ! w = w2c ! w"
      using ih(3) none len by (metis nth_list_update_neq)
    ultimately show ?thesis using ih by simp
  qed
qed

lemma assign_loop_succeeds:
  assumes "3 < C" "class_id \<le> 3" "init_inv V C t" "list_all (\<lambda>p. fst p < V) xs"
  shows "\<exists>t'. assign_loop C xs class_id t = Inr t'"
  using assms
proof (induction C xs class_id t rule: assign_loop.induct)
  case (1 C class_id tables)
  then show ?case by simp
next
  case (2 C word_id count rest class_id w2c c2w)
  have wid: "word_id < V" and rest: "list_all (\<lambda>p. fst p < V) rest"
    using "2.prems"(4) by simp_all
  show ?case
  proof (cases "w2c ! word_id \<noteq> None")
    case True
    from "2.IH"(1) [OF True "2.prems"(1,2,3) rest] True show ?thesis by simp
  next
    case False
    then have none: "w2c ! word_id = None" by simp
    have len: "length w2c = V" "length c2w = C" using "2.prems"(3) by (simp_all add: init_inv_def)
    have cid: "class_id < C" using "2.prems"(1,2) by simp
    let ?w2c = "w2c[word_id := Some class_id]"
    let ?c2w = "c2w[class_id := insert word_id (c2w ! class_id)]"
    have s1: "set_item w2c word_id (Some class_id) = Inr ?w2c" using wid len by (simp add: set_item_def)
    have s2: "add_member c2w class_id word_id = Inr ?c2w" using cid len by (simp add: add_member_def)
    have inv: "init_inv V C (?w2c, ?c2w)"
      using "2.prems"(3) wid cid none unfolding init_inv_def
      by (auto simp: nth_list_update split: if_splits)
    have next_id: "min ((class_id + 1) mod C) 3 \<le> 3" by simp
    from "2.IH"(2) [OF False s1 s2 "2.prems"(1) next_id inv rest] none s1 s2
    show ?thesis by simp
  qed
qed

lemma assign_loop_no_class:
  assumes "length w2c = V" "length c2w = 3" "list_all (\<lambda>p. fst p < V) xs"
  shows "assign_loop C xs 3 (w2c, c2w) =
         (if list_all (\<lambda>p. w2c ! fst p \<noteq> None) xs then Inr (w2c, c2w) else Inl IndexError)"
  using assms(3)
proof (induction xs)
  case Nil
  then show ?case by simp
next
  case (Cons p xs)
  obtain word_id count where p: "p = (word_id, count)" by (cases p)
  show ?case using Cons assms(1,2) p by (simp add: set_item_def add_member_def)
qed

lemma sorted_word_ids:
  "list_all (\<lambda>p. fst p < length wcounts) (sort_key snd (enumerate 0 wcounts))"
  "i < length wcounts \<Longrightarrow> \<exists>p\<in>set (sort_key snd (enumerate 0 wcounts)). fst p = i"
proof -
  show "list_all (\<lambda>p. fst p < length wcounts) (sort_key snd (enumerate 0 wcounts))"
    by (simp add: list_all_iff in_set_enumerate_eq)
  assume "i < length wcounts"
  then have "(i, wcounts ! i) \<in> set (sort_key snd (enumerate 0 wcounts))"
    by (simp add: in_set_enumerate_eq)
  then show "\<exists>p\<in>set (sort_key snd (enumerate 0 wcounts)). fst p = i"
    by (intro bexI [of _ "(i, wcounts ! i)"]) simp_all
qed

lemma assign_loop_assigned:
  assumes "assign_loop C (sort_key snd (enumerate 0 wcounts)) class_id t = Inr (w2c', c2w')"
    and "init_inv (length wcounts) C t"
  shows "length w2c' = length wcounts \<and> list_all (\<lambda>entry. entry \<noteq> None) w2c'"
proof -
  from assign_loop_sound [OF assms sorted_word_ids(1)]
  have inv: "init_inv (length wcounts) C (w2c', c2w')"
    and filled: "\<forall>p\<in>set (sort_key snd (enumerate 0 wcounts)). w2c' ! fst p \<noteq> None"
    by simp_all
  have len: "length w2c' = length wcounts" using inv by (simp add: init_inv_def)
  have "w2c' ! i \<noteq> None" if i: "i < length wcounts" for i
    using sorted_word_ids(2) [OF i] filled by auto
  then show ?thesis using len by (simp add: list_all_length)
qed

lemma three_ids:
  assumes "s < (V::nat)" "e < V" "u < V" "s \<noteq> e" "s \<noteq> u" "e \<noteq> u"
  shows "3 \<le> V" and "V = 3 \<longleftrightarrow> (\<forall>i<V. i = s \<or> i = e \<or> i = u)"
proof -
  have sub: "{s, e, u} \<subseteq> {..<V}" using assms by simp
  have c: "card {s, e, u} = 3" using assms by simp
  show "3 \<le> V" using card_mono [OF _ sub] c by simp
  show "V = 3 \<longleftrightarrow> (\<forall>i<V. i = s \<or> i = e \<or> i = u)"
  proof
    assume "V = 3"
    then have "{s, e, u} = {..<V}" using sub c by (intro card_subset_eq) simp_all
    then show "\<forall>i<V. i = s \<or> i = e \<or> i = u" by auto
  next
    assume "\<forall>i<V. i = s \<or> i = e \<or> i = u"
    then have "{..<V} \<subseteq> {s, e, u}" by auto
    then have "card {..<V} \<le> card {s, e, u}" by (intro card_mono) simp_all
    then show "V = 3" using c \<open>3 \<le> V\<close> by simp
  qed
qed

lemma freq_init_classes_result:
  assumes look: "lookup ids ''<s>'' = Inr s" "lookup ids ''</s>'' = Inr e" "lookup ids ''<UNK>'' = Inr u"
    and ids: "s < V" "e < V" "u < V" and ne: "s \<noteq> e" "s \<noteq> u" "e \<noteq> u"
    and len: "length wcounts = V"
  shows "n < 0 \<or> (n = 0 \<and> V \<noteq> 3) \<Longrightarrow> freq_init_classes ids V wcounts n = Inl IndexError"
    and "1 \<le> n \<or> (n = 0 \<and> V = 3) \<Longrightarrow> \<exists>r. freq_init_classes ids V wcounts n = Inr r"
    and "freq_init_classes ids V wcounts n = Inr (C, w2c, c2w) \<Longrightarrow>
         C = nat (n + 3) \<and> length w2c = V \<and> list_all (\<lambda>k. k < C) w2c \<and>
         c2w = map (members w2c) [0..<C]"
proof -
  let ?C = "nat (n + 3)"
  let ?xs = "sort_key snd (enumerate 0 wcounts)"
  let ?w3 = "(replicate V None)[s := Some 0, e := Some 1, u := Some (2::nat)]"
  let ?c3 = "(replicate ?C {})[0 := {s}, 1 := {e}, 2 := {u}]"
  have pins: "pin_all ids V ?C = (if ?C < 3 then Inl IndexError else Inr (?w3, ?c3))"
    by (rule pin_all_eq [OF look ids])
  have xs: "list_all (\<lambda>p. fst p < V) ?xs" using sorted_word_ids(1) [of wcounts] len by simp
  have all_none: "list_all (\<lambda>p. ?w3 ! fst p \<noteq> None) ?xs \<longleftrightarrow> V = 3"
  proof -
    have "list_all (\<lambda>p. ?w3 ! fst p \<noteq> None) ?xs \<longleftrightarrow> (\<forall>i<V. ?w3 ! i \<noteq> None)"
    proof
      assume a: "list_all (\<lambda>p. ?w3 ! fst p \<noteq> None) ?xs"
      show "\<forall>i<V. ?w3 ! i \<noteq> None"
      proof (intro allI impI)
        fix i assume iV: "i < V"
        obtain p where "p \<in> set ?xs" "fst p = i"
          using sorted_word_ids(2) [of i wcounts] len iV by blast
        then show "?w3 ! i \<noteq> None" using a by (auto simp: list_all_iff)
      qed
    next
      assume a: "\<forall>i<V. ?w3 ! i \<noteq> None"
      show "list_all (\<lambda>p. ?w3 ! fst p \<noteq> None) ?xs"
        using xs a by (auto simp: list_all_iff)
    qed
    also have "\<dots> \<longleftrightarrow> (\<forall>i<V. i = s \<or> i = e \<or> i = u)"
      using pinned_None [of _ V s e u] by auto
    also have "\<dots> \<longleftrightarrow> V = 3" using three_ids(2) [OF ids ne] by simp
    finally show ?thesis .
  qed
  show "freq_init_classes ids V wcounts n = Inl IndexError" if "n < 0 \<or> (n = 0 \<and> V \<noteq> 3)"
  proof (cases "n < 0")
    case True
    then have "?C < 3" by simp
    then show ?thesis by (simp add: freq_init_classes_alt pins)
  next
    case False
    then have n: "n = 0" and V: "V \<noteq> 3" using that by simp_all
    have C: "?C = 3" using n by simp
    have "assign_loop 3 ?xs 3 (?w3, (replicate 3 {})[0 := {s}, 1 := {e}, 2 := {u}]) = Inl IndexError"
      using V all_none xs by (subst assign_loop_no_class [where V = V]) simp_all
    then show ?thesis using C pins by (simp add: freq_init_classes_alt n)
  qed
  show "\<exists>r. freq_init_classes ids V wcounts n = Inr r" if "1 \<le> n \<or> (n = 0 \<and> V = 3)"
  proof (cases "1 \<le> n")
    case True
    then have C: "3 < ?C" by simp
    then have inv: "init_inv V ?C (?w3, ?c3)" by (intro pinned_inv ids ne) simp
    obtain t' where "assign_loop ?C ?xs 3 (?w3, ?c3) = Inr t'"
      using assign_loop_succeeds [OF C _ inv xs, of 3] by auto
    then show ?thesis using C pins by (cases t') (simp add: freq_init_classes_alt)
  next
    case False
    then have n: "n = 0" and V: "V = 3" using that by simp_all
    have C: "?C = 3" using n by simp
    have "assign_loop 3 ?xs 3 (?w3, (replicate 3 {})[0 := {s}, 1 := {e}, 2 := {u}]) =
          Inr (?w3, (replicate 3 {})[0 := {s}, 1 := {e}, 2 := {u}])"
      using V all_none xs by (subst assign_loop_no_class [where V = V]) simp_all
    then show ?thesis using C pins by (simp add: freq_init_classes_alt n)
  qed
  show "C = nat (n + 3) \<and> length w2c = V \<and> list_all (\<lambda>k. k < C) w2c \<and>
         c2w = map (members w2c) [0..<C]" if run: "freq_init_classes ids V wcounts n = Inr (C, w2c, c2w)"
  proof -
    have C3: "\<not> ?C < 3" using run pins by (auto simp: freq_init_classes_alt split: if_splits)
    then have inv: "init_inv V ?C (?w3, ?c3)" by (intro pinned_inv ids ne) simp
    obtain w2c' c2w' where loop: "assign_loop ?C ?xs 3 (?w3, ?c3) = Inr (w2c', c2w')"
      and res: "C = ?C" "w2c = map the w2c'" "c2w = c2w'"
      using run pins C3 by (auto simp: freq_init_classes_alt split: sum.splits)
    from assign_loop_sound [OF loop inv xs]
    have inv': "init_inv V ?C (w2c', c2w')" and filled: "\<forall>p\<in>set ?xs. w2c' ! fst p \<noteq> None"
      by simp_all
    have some: "\<exists>k. w2c' ! i = Some k \<and> k < ?C" if iV: "i < V" for i
    proof -
      obtain p where "p \<in> set ?xs" "fst p = i"
        using sorted_word_ids(2) [of i wcounts] len iV by blast
      then have "w2c' ! i \<noteq> None" using filled by auto
      then show ?thesis using inv' iV by (auto simp: init_inv_def)
    qed
    have l: "length w2c' = V" "length c2w' = ?C" using inv' by (simp_all add: init_inv_def)
    have "the (w2c' ! i) < ?C" if iV: "i < V" for i
      using some [OF iV] by auto
    then have "list_all (\<lambda>k. k < C) w2c"
      using l by (simp add: res list_all_length)
    moreover have "c2w = map (members w2c) [0..<C]"
    proof (rule nth_equalityI)
      show "length c2w = length (map (members w2c) [0..<C])" using l res by simp
    next
      fix k assume "k < length c2w"
      then have k: "k < ?C" using l res by simp
      have "c2w' ! k = {w. w < V \<and> w2c' ! w = Some k}" using inv' k by (simp add: init_inv_def)
      also have "\<dots> = members (map the w2c') k"
      proof -
        have "w2c' ! w = Some k \<longleftrightarrow> the (w2c' ! w) = k" if wV: "w < V" for w
          using some [OF wV] by auto
        then show ?thesis using l by (auto simp: members_def)
      qed
      finally show "c2w ! k = map (members w2c) [0..<C] ! k" using k res by simp
    qed
    ultimately show ?thesis using res l by simp
  qed
qed

subsection \<open>The construction\<close>

lemma reserved_in_vocabulary:
  "''<s>'' \<in> read_vocabulary corpus_file vocabulary_file"
  "''</s>'' \<in> read_vocabulary corpus_file vocabulary_file"
  "''<UNK>'' \<in> read_vocabulary corpus_file vocabulary_file"
  by (simp_all add: read_vocabulary_def reserved_words_def Let_def split: option.splits)

lemma consistent_compute:
  assumes "shaped self"
    and "class_to_words self = map (members (word_to_class self)) [0..<num_classes self]"
  shows "consistent (compute_class_statistics self)"
  using assms
  by (simp add: consistent_def shaped_def compute_class_statistics_def split: prod.splits)

lemma init_cases:
  assumes d: "distinct order" and v: "set order = read_vocabulary corpus_file vocabulary_file"
  shows "n < 0 \<or> (n = 0 \<and> length order \<noteq> 3) \<Longrightarrow>
           init order n corpus_file vocabulary_file = Inl IndexError"
    and "1 \<le> n \<or> (n = 0 \<and> length order = 3) \<Longrightarrow>
           \<exists>self. init order n corpus_file vocabulary_file = Inr self"
    and "init order n corpus_file vocabulary_file = Inr self \<Longrightarrow>
           consistent self \<and>
           sum_list (word_counts self) = total_tokens corpus_file \<and>
           sum2 (ww_counts self) = total_tokens corpus_file - int (length corpus_file) \<and>
           vocabulary self = read_vocabulary corpus_file vocabulary_file \<and>
           vocabulary_size self = length order \<and>
           num_classes self = nat (n + 3) \<and>
           word_ids self = zip order [0..<length order] \<and>
           (word_counts self, ww_counts self) =
             fold (\<lambda>line. count_sentence
                     (sentence_ids (read_vocabulary corpus_file vocabulary_file) (index_of order) line))
               corpus_file (zeros (length order), zeros2 (length order) (length order))"
proof -
  let ?vocab = "read_vocabulary corpus_file vocabulary_file"
  let ?V = "length order"
  let ?ids = "zip order [0..<?V]"
  let ?f = "index_of order"
  have card: "card ?vocab = ?V" using d v distinct_card [of order] by simp
  have look: "\<And>w. w \<in> ?vocab \<Longrightarrow> lookup ?ids w = Inr (?f w)"
    using v by (simp add: lookup_index_of)
  have bound: "\<And>w. w \<in> ?vocab \<Longrightarrow> ?f w < ?V"
    using v by (simp add: index_of_less)
  note res = reserved_in_vocabulary [of corpus_file vocabulary_file]
  obtain wcounts ww where
    stats: "read_word_statistics ?vocab ?V ?ids corpus_file = Inr (wcounts, ww)"
    and sh: "length wcounts = ?V" "square ?V ww"
    and sums: "sum_list wcounts = total_tokens corpus_file"
      "sum2 ww = total_tokens corpus_file - int (length corpus_file)"
    using read_word_statistics_sums [where f = ?f and vocab = ?vocab and V = ?V, OF look bound res]
    by blast
  have fold: "(wcounts, ww) = fold (\<lambda>line. count_sentence (sentence_ids ?vocab ?f line))
               corpus_file (zeros ?V, zeros2 ?V ?V)"
    using stats by (simp add: read_word_statistics_def read_lines_eq [where f = ?f, OF look res])
  have ne: "?f ''<s>'' \<noteq> ?f ''</s>''" "?f ''<s>'' \<noteq> ?f ''<UNK>''" "?f ''</s>'' \<noteq> ?f ''<UNK>''"
    using index_of_inj [of _ order] res v by fastforce+
  note fic = freq_init_classes_result [where ids = ?ids and V = ?V and wcounts = wcounts and n = n,
      OF look [OF res(1)] look [OF res(2)] look [OF res(3)]
         bound [OF res(1)] bound [OF res(2)] bound [OF res(3)] ne sh(1)]
  show "init order n corpus_file vocabulary_file = Inl IndexError"
    if "n < 0 \<or> (n = 0 \<and> length order \<noteq> 3)"
    using fic(1) [OF that] stats by (simp add: init_def Let_def card)
  show "\<exists>self. init order n corpus_file vocabulary_file = Inr self"
    if "1 \<le> n \<or> (n = 0 \<and> length order = 3)"
    using fic(2) [OF that] stats by (auto simp: init_def Let_def card)
  show "consistent self \<and>
           sum_list (word_counts self) = total_tokens corpus_file \<and>
           sum2 (ww_counts self) = total_tokens corpus_file - int (length corpus_file) \<and>
           vocabulary self = ?vocab \<and> vocabulary_size self = ?V \<and>
           num_classes self = nat (n + 3) \<and> word_ids self = ?ids \<and>
           (word_counts self, ww_counts self) =
             fold (\<lambda>line. count_sentence (sentence_ids ?vocab ?f line))
               corpus_file (zeros ?V, zeros2 ?V ?V)"
    if run: "init order n corpus_file vocabulary_file = Inr self"
  proof -
    obtain C w2c c2w where cls: "freq_init_classes ?ids ?V wcounts n = Inr (C, w2c, c2w)"
      and self: "self = compute_class_statistics
             \<lparr>vocabulary = ?vocab, vocabulary_size = ?V, word_ids = ?ids,
              word_counts = wcounts, ww_counts = ww, num_classes = C,
              word_to_class = w2c, class_to_words = c2w,
              class_counts = [], cc_counts = [], cw_counts = [], wc_counts = []\<rparr>"
      using run stats by (auto simp: init_def Let_def card split: sum.splits)
    from fic(3) [OF cls] have cl: "C = nat (n + 3)" "length w2c = ?V" "list_all (\<lambda>k. k < C) w2c"
      "c2w = map (members w2c) [0..<C]" by blast+
    let ?raw = "\<lparr>vocabulary = ?vocab, vocabulary_size = ?V, word_ids = ?ids,
              word_counts = wcounts, ww_counts = ww, num_classes = C,
              word_to_class = w2c, class_to_words = c2w,
              class_counts = [], cc_counts = [], cw_counts = [], wc_counts = []\<rparr>"
    have "shaped ?raw" using sh cl by (simp add: shaped_def square_def)
    then have "consistent self" unfolding self using cl(4) by (intro consistent_compute) simp_all
    moreover have "word_counts self = wcounts" "ww_counts self = ww" "vocabulary self = ?vocab"
      "vocabulary_size self = ?V" "num_classes self = C" "word_ids self = ?ids"
      by (simp_all add: self compute_class_statistics_def split: prod.splits)
    ultimately show ?thesis using sums cl(1) fold by simp
  qed
qed

subsection \<open>The sums of the tables\<close>

lemma sum_list_tabulate: "sum_list (tabulate n f) = (\<Sum>a<n. (f a :: int))"
  by (simp add: tabulate_def sum_list_upt)

lemma sum2_tabulate2: "sum2 (tabulate2 r c f) = (\<Sum>a<r. \<Sum>b<c. (f a b :: int))"
  by (simp add: tabulate2_def sum2_def comp_def sum_list_upt)

lemma sum_list_nth: "sum_list xs = (\<Sum>i<length xs. (xs ! i :: int))"
  by (simp add: sum_list_sum_nth atLeast0LessThan)

lemma sum2_nth:
  assumes "square V m"
  shows "sum2 m = (\<Sum>i<V. \<Sum>j<V. m ! i ! j)"
proof -
  have "sum2 m = (\<Sum>i<V. sum_list (m ! i))"
    using assms by (simp add: sum2_def sum_list_nth [of "map sum_list m"] square_def)
  also have "\<dots> = (\<Sum>i<V. \<Sum>j<V. m ! i ! j)"
    using assms by (intro sum.cong refl) (simp add: sum_list_nth square_row)
  finally show ?thesis .
qed

lemma sum_class_indicator:
  assumes "k < (C::nat)"
  shows "(\<Sum>a<C. if k = a then x else 0) = (x::int)"
  using assms by (simp add: sum.delta')

lemma consistent_sums:
  assumes "consistent self"
  shows "sum_list (class_counts self) = sum_list (word_counts self)"
    and "sum2 (cc_counts self) = sum2 (ww_counts self)"
proof -
  let ?V = "vocabulary_size self" and ?C = "num_classes self"
  let ?c = "word_to_class self" and ?ww = "ww_counts self"
  have sh: "shaped self"
    and c: "class_counts self = tabulate ?C (agg_c ?V (word_counts self) ?c)"
    and cc: "cc_counts self = tabulate2 ?C ?C (agg_cc ?V ?ww ?c)"
    using assms by (simp_all add: consistent_iff)
  have cls: "\<And>i. i < ?V \<Longrightarrow> ?c ! i < ?C" using shapedD(5) [OF sh] .
  have sq: "square ?V ?ww" using sh by (simp add: shaped_def square_def)
  have "sum_list (class_counts self) = (\<Sum>a<?C. \<Sum>i<?V. if ?c ! i = a then word_counts self ! i else 0)"
    by (simp add: c sum_list_tabulate agg_c_def)
  also have "\<dots> = (\<Sum>i<?V. \<Sum>a<?C. if ?c ! i = a then word_counts self ! i else 0)"
    by (rule sum.swap)
  also have "\<dots> = (\<Sum>i<?V. word_counts self ! i)"
    using cls by (intro sum.cong refl) (simp add: sum_class_indicator)
  also have "\<dots> = sum_list (word_counts self)"
    using shapedD(1) [OF sh] by (simp add: sum_list_nth)
  finally show "sum_list (class_counts self) = sum_list (word_counts self)" .
  have row: "(\<Sum>b<?C. agg_cc ?V ?ww ?c a b) = (\<Sum>i<?V. \<Sum>j<?V. if ?c ! i = a then ?ww ! i ! j else 0)" for a
  proof -
    have "(\<Sum>b<?C. agg_cc ?V ?ww ?c a b) =
          (\<Sum>i<?V. \<Sum>b<?C. \<Sum>j<?V. if ?c ! i = a \<and> ?c ! j = b then ?ww ! i ! j else 0)"
      unfolding agg_cc_def by (rule sum.swap)
    also have "\<dots> = (\<Sum>i<?V. \<Sum>j<?V. \<Sum>b<?C. if ?c ! i = a \<and> ?c ! j = b then ?ww ! i ! j else 0)"
      by (intro sum.cong refl sum.swap)
    also have "\<dots> = (\<Sum>i<?V. \<Sum>j<?V. if ?c ! i = a then ?ww ! i ! j else 0)"
    proof (intro sum.cong refl)
      fix i j assume "j \<in> {..<?V}"
      then have j: "?c ! j < ?C" using cls by simp
      have "(\<Sum>b<?C. if ?c ! i = a \<and> ?c ! j = b then ?ww ! i ! j else 0) =
            (\<Sum>b<?C. if ?c ! j = b then (if ?c ! i = a then ?ww ! i ! j else 0) else 0)"
        by (intro sum.cong refl) simp
      then show "(\<Sum>b<?C. if ?c ! i = a \<and> ?c ! j = b then ?ww ! i ! j else 0) =
            (if ?c ! i = a then ?ww ! i ! j else 0)"
        using sum_class_indicator [OF j] by simp
    qed
    finally show ?thesis .
  qed
  have "sum2 (cc_counts self) = (\<Sum>a<?C. \<Sum>i<?V. \<Sum>j<?V. if ?c ! i = a then ?ww ! i ! j else 0)"
    by (simp add: cc sum2_tabulate2 row)
  also have "\<dots> = (\<Sum>i<?V. \<Sum>a<?C. \<Sum>j<?V. if ?c ! i = a then ?ww ! i ! j else 0)"
    by (rule sum.swap)
  also have "\<dots> = (\<Sum>i<?V. \<Sum>j<?V. \<Sum>a<?C. if ?c ! i = a then ?ww ! i ! j else 0)"
    by (intro sum.cong refl sum.swap)
  also have "\<dots> = (\<Sum>i<?V. \<Sum>j<?V. ?ww ! i ! j)"
    using cls by (intro sum.cong refl) (simp add: sum_class_indicator)
  also have "\<dots> = sum2 ?ww" using sum2_nth [OF sq] by simp
  finally show "sum2 (cc_counts self) = sum2 (ww_counts self)" .
qed

lemma move_Inr_consistent:
  assumes cons: "consistent self" and m: "move self w new = Inr self'"
  shows "consistent self' \<and> word_counts self' = word_counts self \<and> ww_counts self' = ww_counts self"
proof -
  have sh: "shaped self"
    and c: "class_counts self = tabulate (num_classes self)
        (agg_c (vocabulary_size self) (word_counts self) (word_to_class self))"
    using cons by (simp_all add: consistent_iff)
  have w: "w < vocabulary_size self" and new: "new < num_classes self"
    using m shapedD(4) [OF sh] by (auto simp: move_eq c split: if_splits)
  from move_consistent [OF cons w new] m show ?thesis by auto
qed

lemma reachable_inv:
  assumes "reachable corpus_file self"
  shows "consistent self \<and> sum_list (word_counts self) = total_tokens corpus_file \<and>
         sum2 (ww_counts self) = total_tokens corpus_file - int (length corpus_file)"
  using assms
proof (induction rule: reachable.induct)
  case (construct order vocabulary_file n self)
  from init_cases(3) [OF construct] show ?case by simp
next
  case (step self word_id new_class_id self')
  from move_Inr_consistent [OF _ step.hyps(2)] step.IH show ?case by simp
qed

subsection \<open>The example\<close>

lemma example_init: "init example_order 1 example_corpus None = Inr example"
  by code_simp

lemma example_consistent: "consistent example"
  by code_simp

lemma example_order_valid:
  "distinct example_order" "set example_order = read_vocabulary example_corpus None"
  by code_simp+

lemma example_reachable: "reachable example_corpus example"
  using example_order_valid example_init by (rule reachable.construct)

lemma example_vocabulary:
  "read_vocabulary example_corpus None = {''<s>'', ''</s>'', ''<UNK>'', ''a'', ''b''}"
  by code_simp

lemma example_sentences:
  "sentence_ids {''<s>'', ''</s>'', ''<UNK>'', ''a'', ''b''} f ''a b a'' =
     [f ''<s>'', f ''a'', f ''b'', f ''a'', f ''</s>'']"
  "sentence_ids {''<s>'', ''</s>'', ''<UNK>'', ''a'', ''b''} f ''b a b'' =
     [f ''<s>'', f ''b'', f ''a'', f ''b'', f ''</s>'']"
  by (simp_all add: sentence_ids_def split_ws_def is_space_def)

subsection \<open>A move of a word to its own class\<close>

lemma self_move_unchanged:
  assumes "consistent self" and "word_id < vocabulary_size self"
  shows "move self word_id (word_to_class self ! word_id) = Inr self"
proof -
  have sh: "shaped self" using assms(1) by (simp add: consistent_iff)
  have old: "word_to_class self ! word_id < num_classes self" using shapedD(5) [OF sh assms(2)] .
  obtain self' where m: "move self word_id (word_to_class self ! word_id) = Inr self'"
    and c: "consistent self'"
    and f: "word_to_class self' = (word_to_class self)[word_id := word_to_class self ! word_id]"
      "word_counts self' = word_counts self" "ww_counts self' = ww_counts self"
      "vocabulary_size self' = vocabulary_size self" "num_classes self' = num_classes self"
      "vocabulary self' = vocabulary self" "word_ids self' = word_ids self"
    using move_consistent [OF assms old] by blast
  have "self' = self"
    using f by (intro consistent_determined [OF c assms(1)]) simp_all
  then show ?thesis using m by simp
qed

section \<open>The claims\<close>

text \<open>
  C1. The delta that the evaluation of a move returns is the change of the full log
  likelihood under that move. The source does not reach a return value: on the object
  built from the corpus \<open>a b a\<close>, \<open>b a b\<close> with one class for the words, evaluating the
  move of the word \<open>a\<close> (id 3) to class 1 raises \<open>TypeError\<close> in the loop of line 146.
\<close>

theorem evaluate_move_example_raises: "evaluate_move example 3 1 = Inl TypeError"
  by (simp add: evaluate_move_def example_def Let_def)

text \<open>
  C2. After a move of a word of the vocabulary to a class in range, applied to a
  consistent object, the word-level tables, the sizes, the vocabulary and the word ids
  are those of the object before, \<open>word_to_class\<close> is updated at the word, the four
  class-level count tables are what \<open>_compute_class_statistics\<close> computes from the
  \<open>word_counts\<close> and \<open>ww_counts\<close> of the object before and the updated \<open>word_to_class\<close>,
  and \<open>class_to_words\<close> is the inverse of the updated \<open>word_to_class\<close>: the object is
  consistent again.
\<close>

theorem move_restores_invariants:
  assumes "consistent self" and "word_id < vocabulary_size self"
    and "new_class_id < num_classes self"
  shows "\<exists>self'. move self word_id new_class_id = Inr self' \<and>
           word_to_class self' = (word_to_class self)[word_id := new_class_id] \<and>
           word_counts self' = word_counts self \<and> ww_counts self' = ww_counts self \<and>
           vocabulary_size self' = vocabulary_size self \<and> num_classes self' = num_classes self \<and>
           vocabulary self' = vocabulary self \<and> word_ids self' = word_ids self \<and>
           (class_counts self', cc_counts self', cw_counts self', wc_counts self') =
             class_statistics (num_classes self) (vocabulary_size self) (word_counts self)
               (ww_counts self) ((word_to_class self)[word_id := new_class_id]) \<and>
           class_to_words self' =
             map (members ((word_to_class self)[word_id := new_class_id])) [0..<num_classes self] \<and>
           consistent self' \<and> compute_class_statistics self' = self'"
proof -
  obtain self' where m: "move self word_id new_class_id = Inr self'" and c: "consistent self'"
    and f: "word_to_class self' = (word_to_class self)[word_id := new_class_id]"
      "word_counts self' = word_counts self" "ww_counts self' = ww_counts self"
      "vocabulary_size self' = vocabulary_size self" "num_classes self' = num_classes self"
      "vocabulary self' = vocabulary self" "word_ids self' = word_ids self"
    using move_consistent [OF assms] by blast
  have tabs: "(class_counts self', cc_counts self', cw_counts self', wc_counts self') =
             class_statistics (num_classes self) (vocabulary_size self) (word_counts self)
               (ww_counts self) ((word_to_class self)[word_id := new_class_id])"
    and inv: "class_to_words self' =
             map (members ((word_to_class self)[word_id := new_class_id])) [0..<num_classes self]"
    using c f by (simp_all add: consistent_def)
  have "(class_counts self', cc_counts self', cw_counts self', wc_counts self') =
        class_statistics (num_classes self') (vocabulary_size self') (word_counts self')
          (ww_counts self') (word_to_class self')"
    using c by (simp add: consistent_def)
  then have "compute_class_statistics self' = self'"
    by (auto simp: compute_class_statistics_def split: prod.splits dest!: sym [of "(_, _)"])
  then show ?thesis using m c f tabs inv by blast
qed

theorem move_restores_invariants_witness:
  "consistent example \<and> 3 < vocabulary_size example \<and> 1 < num_classes example \<and>
   (\<exists>self'. move example 3 1 = Inr self' \<and>
      word_to_class self' = (word_to_class example)[3 := 1] \<and>
      word_counts self' = word_counts example \<and> ww_counts self' = ww_counts example \<and>
      vocabulary_size self' = vocabulary_size example \<and> num_classes self' = num_classes example \<and>
      vocabulary self' = vocabulary example \<and> word_ids self' = word_ids example \<and>
      (class_counts self', cc_counts self', cw_counts self', wc_counts self') =
        class_statistics (num_classes example) (vocabulary_size example) (word_counts example)
          (ww_counts example) ((word_to_class example)[3 := 1]) \<and>
      class_to_words self' =
        map (members ((word_to_class example)[3 := 1])) [0..<num_classes example] \<and>
      consistent self' \<and> compute_class_statistics self' = self')"
proof -
  have h: "3 < vocabulary_size example" "1 < num_classes example"
    by (simp_all add: example_def)
  show ?thesis
    using move_restores_invariants [OF example_consistent h] example_consistent h by simp
qed

text \<open>
  C3, as stated: every count table sums to the number N of tokens. For the example corpus
  N is 10, but the bigram tables \<open>ww_counts\<close> and \<open>cc_counts\<close> of the object that the
  construction returns sum to 8.
\<close>

theorem bigram_sum_counterexample:
  "distinct example_order \<and> set example_order = read_vocabulary example_corpus None \<and>
   init example_order 1 example_corpus None = Inr example \<and>
   total_tokens example_corpus = 10 \<and>
   sum2 (ww_counts example) = 8 \<and> sum2 (cc_counts example) = 8"
  by code_simp

text \<open>
  C3, amended: in every object reachable from a construction by moves, \<open>class_counts\<close>
  and \<open>word_counts\<close> sum to the number N of tokens of the corpus, \<open><s>\<close> and \<open></s>\<close>
  of every line included, and \<open>cc_counts\<close> and \<open>ww_counts\<close> sum to N minus the number
  of lines of the corpus: a line of n tokens, the two boundaries among them, has n - 1
  bigrams. The objects reachable are those before and after every move.
\<close>

theorem reachable_sums:
  assumes "reachable corpus_file self"
  shows "sum_list (class_counts self) = total_tokens corpus_file \<and>
         sum_list (word_counts self) = total_tokens corpus_file \<and>
         sum2 (cc_counts self) = total_tokens corpus_file - int (length corpus_file) \<and>
         sum2 (ww_counts self) = total_tokens corpus_file - int (length corpus_file)"
  using reachable_inv [OF assms] consistent_sums [of self] by simp

theorem reachable_sums_witness:
  "reachable example_corpus example \<and>
   sum_list (class_counts example) = total_tokens example_corpus \<and>
   sum_list (word_counts example) = total_tokens example_corpus \<and>
   sum2 (cc_counts example) = total_tokens example_corpus - int (length example_corpus) \<and>
   sum2 (ww_counts example) = total_tokens example_corpus - int (length example_corpus)"
  using reachable_sums [OF example_reachable] example_reachable by simp

text \<open>
  C4. The words that are not reserved are dealt to the classes 3 to C - 1 in turn. With
  two classes for the words (C = 5) and the corpus of the one line \<open>a b\<close>, the source puts
  both \<open>a\<close> (id 3) and \<open>b\<close> (id 4) into class 3 and leaves class 4 empty.
\<close>

theorem freq_init_example_one_class:
  "distinct example_order \<and> set example_order = read_vocabulary [''a b''] None \<and>
   map_sum id (\<lambda>self. (num_classes self, word_to_class self, class_to_words self))
     (init example_order 2 [''a b''] None) = Inr (5, [0, 1, 2, 3, 3], [{0}, {1}, {2}, {3, 4}, {}])"
  by code_simp

text \<open>
  C5. Moving a word to a class in range and then back to the class it came from
  restores the object, every count table and both mappings included, and with it the
  full log likelihood.
\<close>

theorem move_and_back_restores:
  assumes "consistent self" and "word_id < vocabulary_size self"
    and "new_class_id < num_classes self"
  shows "\<exists>self1 self2. move self word_id new_class_id = Inr self1 \<and>
           move self1 word_id (word_to_class self ! word_id) = Inr self2 \<and>
           self2 = self \<and> log_likelihood self2 = log_likelihood self"
  using move_there_and_back [OF assms] by auto

theorem move_and_back_restores_witness:
  "consistent example \<and> 3 < vocabulary_size example \<and> 1 < num_classes example \<and>
   (\<exists>self1 self2. move example 3 1 = Inr self1 \<and>
      move self1 3 (word_to_class example ! 3) = Inr self2 \<and>
      self2 = example \<and> log_likelihood self2 = log_likelihood example)"
proof -
  have h: "3 < vocabulary_size example" "1 < num_classes example"
    by (simp_all add: example_def)
  show ?thesis
    using move_and_back_restores [OF example_consistent h] example_consistent h by simp
qed

text \<open>
  C6. Evaluating the move of a word to its own current class returns the delta 0 and
  changes no table, and applying such a move leaves all tables unchanged. In the example
  the word \<open>a\<close> (id 3) is in class 3. Applying its move to class 3 returns the object
  as it was (as it does for every word of a consistent object, lemma
  \<open>self_move_unchanged\<close>), but evaluating that move returns no delta: it raises
  \<open>TypeError\<close> in the loop of line 146.
\<close>

theorem evaluate_self_move_raises:
  "word_to_class example ! 3 = 3 \<and> evaluate_move example 3 3 = Inl TypeError \<and>
   move example 3 3 = Inr example"
proof -
  have "move example 3 (word_to_class example ! 3) = Inr example"
    by (rule self_move_unchanged [OF example_consistent]) (simp add: example_def)
  moreover have "word_to_class example ! 3 = 3" by (simp add: example_def)
  moreover have "evaluate_move example 3 3 = Inl TypeError"
    by (simp add: evaluate_move_def example_def Let_def)
  ultimately show ?thesis by simp
qed

text \<open>
  C7. A count of 0 contributes 0 to every term of the log likelihood and of the move
  delta. In the example the word \<open>a\<close> (id 3) is the only word of class 3, so its move to
  class 1 leaves 0 in the old class: the terms of lines 134 to 144 are then a NaN.
\<close>

theorem class_count_terms_example_nan: "class_count_terms example 3 1 = NaN"
  by (simp add: class_count_terms_def example_def Let_def np_log_def fsub_def)

text \<open>
  C8, as stated: the construction fails when the number of classes exceeds the size of
  the vocabulary, and when \<open>num_classes\<close> is not positive. With the corpus of the one
  line \<open>a\<close> and \<open>num_classes = 5\<close> it returns an object of 8 classes over 4 words; with
  an empty corpus and \<open>num_classes = 0\<close> it returns an object of 3 classes over 3 words.
\<close>

theorem init_no_check_counterexample:
  "distinct [''<s>'', ''</s>'', ''<UNK>'', ''a''] \<and>
   set [''<s>'', ''</s>'', ''<UNK>'', ''a''] = read_vocabulary [''a''] None \<and>
   map_sum id (\<lambda>self. (num_classes self, vocabulary_size self))
     (init [''<s>'', ''</s>'', ''<UNK>'', ''a''] 5 [''a''] None) = Inr (8, 4) \<and>
   distinct reserved_words \<and> set reserved_words = read_vocabulary [] None \<and>
   map_sum id (\<lambda>self. (num_classes self, vocabulary_size self))
     (init reserved_words 0 [] None) = Inr (3, 3)"
  by code_simp

text \<open>
  C8, amended: the construction has no check of \<open>num_classes\<close>. It raises \<open>IndexError\<close>
  while the classes are initialised, and returns no object, when \<open>num_classes\<close> is
  negative, and when \<open>num_classes\<close> is 0 and the vocabulary has a word besides the three
  reserved ones. In every other case it returns an object of \<open>num_classes + 3\<close> classes,
  also when these are more than the words of the vocabulary.
\<close>

theorem init_fails_or_succeeds:
  assumes "distinct order" and "set order = read_vocabulary corpus_file vocabulary_file"
  shows "if n < 0 \<or> (n = 0 \<and> card (read_vocabulary corpus_file vocabulary_file) \<noteq> 3)
         then init order n corpus_file vocabulary_file = Inl IndexError
         else (\<exists>self. init order n corpus_file vocabulary_file = Inr self \<and>
                 num_classes self = nat (n + 3) \<and>
                 vocabulary_size self = card (read_vocabulary corpus_file vocabulary_file))"
proof -
  have card: "card (read_vocabulary corpus_file vocabulary_file) = length order"
    using assms distinct_card [of order] by simp
  show ?thesis
  proof (cases "n < 0 \<or> (n = 0 \<and> length order \<noteq> 3)")
    case True
    then show ?thesis using init_cases(1) [OF assms, of n] card by simp
  next
    case False
    then have ok: "1 \<le> n \<or> (n = 0 \<and> length order = 3)" by auto
    obtain self where run: "init order n corpus_file vocabulary_file = Inr self"
      using init_cases(2) [OF assms ok] by blast
    from init_cases(3) [OF assms run] run False card show ?thesis by auto
  qed
qed

theorem init_fails_or_succeeds_witness:
  "distinct example_order \<and> set example_order = read_vocabulary example_corpus None \<and>
   init example_order (- 1) example_corpus None = Inl IndexError \<and>
   init example_order 0 example_corpus None = Inl IndexError \<and>
   (\<exists>self. init example_order 7 example_corpus None = Inr self \<and>
      num_classes self = 10 \<and> vocabulary_size self = 5)"
proof -
  have c: "card (read_vocabulary example_corpus None) = 5"
    using example_order_valid distinct_card [of example_order] by (simp add: example_order_def)
  show ?thesis
    using init_fails_or_succeeds [OF example_order_valid, of "- 1"]
      init_fails_or_succeeds [OF example_order_valid, of 0]
      init_fails_or_succeeds [OF example_order_valid, of 7] example_order_valid c
    by simp
qed

text \<open>
  C9. For the corpus of the two lines \<open>a b a\<close> and \<open>b a b\<close> and \<open>num_classes = 1\<close>, in
  whatever order the vocabulary is numbered, the construction returns an object with
  the vocabulary \<open><s>\<close>, \<open></s>\<close>, \<open><UNK>\<close>, \<open>a\<close>, \<open>b\<close>, with 4 classes, with the count 3 for
  \<open>a\<close> and for \<open>b\<close>, and with the count 1 for the bigram \<open><s> a\<close>.
\<close>

theorem example_construction:
  assumes "distinct order" and "set order = read_vocabulary example_corpus None"
  shows "\<exists>self a b s. init order 1 example_corpus None = Inr self \<and>
           vocabulary self = {''<s>'', ''</s>'', ''<UNK>'', ''a'', ''b''} \<and>
           vocabulary_size self = 5 \<and> num_classes self = 4 \<and>
           lookup (word_ids self) ''a'' = Inr a \<and> lookup (word_ids self) ''b'' = Inr b \<and>
           lookup (word_ids self) ''<s>'' = Inr s \<and>
           word_counts self ! a = 3 \<and> word_counts self ! b = 3 \<and> ww_counts self ! s ! a = 1"
proof -
  let ?f = "index_of order"
  have set: "set order = {''<s>'', ''</s>'', ''<UNK>'', ''a'', ''b''}"
    using assms(2) by (simp add: example_vocabulary)
  have len: "length order = 5"
    using distinct_card [OF assms(1)] set by simp
  have mem: "''<s>'' \<in> set order" "''</s>'' \<in> set order" "''a'' \<in> set order" "''b'' \<in> set order"
    using set by simp_all
  have lt: "?f ''<s>'' < 5" "?f ''</s>'' < 5" "?f ''a'' < 5" "?f ''b'' < 5"
    using mem index_of_less [of _ order] len by auto
  have ne: "?f ''a'' \<noteq> ?f ''b''" "?f ''a'' \<noteq> ?f ''<s>''" "?f ''a'' \<noteq> ?f ''</s>''"
    "?f ''b'' \<noteq> ?f ''<s>''" "?f ''b'' \<noteq> ?f ''</s>''" "?f ''<s>'' \<noteq> ?f ''</s>''"
    using index_of_inj [of _ order] mem by fastforce+
  obtain self where run: "init order 1 example_corpus None = Inr self"
    using init_cases(2) [OF assms, of 1] by auto
  from init_cases(3) [OF assms run]
  have voc: "vocabulary self = {''<s>'', ''</s>'', ''<UNK>'', ''a'', ''b''}"
    and size: "vocabulary_size self = 5" and cls: "num_classes self = 4"
    and ids: "word_ids self = zip order [0..<length order]"
    and tabs: "(word_counts self, ww_counts self) =
      fold (\<lambda>line. count_sentence
              (sentence_ids {''<s>'', ''</s>'', ''<UNK>'', ''a'', ''b''} ?f line))
        example_corpus (zeros 5, zeros2 5 5)"
    by (simp_all add: example_vocabulary len)
  have wc: "word_counts self =
      fold (\<lambda>word_id a. vec_add a word_id 1) [?f ''<s>'', ?f ''b'', ?f ''a'', ?f ''b'', ?f ''</s>'']
        (fold (\<lambda>word_id a. vec_add a word_id 1) [?f ''<s>'', ?f ''a'', ?f ''b'', ?f ''a'', ?f ''</s>'']
           (zeros 5))"
    using tabs by (simp add: example_corpus_def example_sentences count_sentence_def)
  have ww: "ww_counts self =
      fold (\<lambda>(l, r) m. mat_add m l r 1)
        [(?f ''<s>'', ?f ''b''), (?f ''b'', ?f ''a''), (?f ''a'', ?f ''b''), (?f ''b'', ?f ''</s>'')]
        (fold (\<lambda>(l, r) m. mat_add m l r 1)
           [(?f ''<s>'', ?f ''a''), (?f ''a'', ?f ''b''), (?f ''b'', ?f ''a''), (?f ''a'', ?f ''</s>'')]
           (zeros2 5 5))"
    using tabs by (simp add: example_corpus_def example_sentences count_sentence_def)
  have a: "word_counts self ! ?f ''a'' = 3" and b: "word_counts self ! ?f ''b'' = 3"
    using lt ne by (simp_all add: wc nth_vec_add)
  have sa: "ww_counts self ! ?f ''<s>'' ! ?f ''a'' = 1"
    using lt ne by (simp add: ww nth_mat_add)
  have "lookup (word_ids self) ''a'' = Inr (?f ''a'')" "lookup (word_ids self) ''b'' = Inr (?f ''b'')"
    "lookup (word_ids self) ''<s>'' = Inr (?f ''<s>'')"
    using mem by (simp_all add: ids lookup_index_of)
  then show ?thesis using run voc size cls a b sa by blast
qed

theorem example_construction_witness:
  "distinct example_order \<and> set example_order = read_vocabulary example_corpus None \<and>
   (\<exists>self a b s. init example_order 1 example_corpus None = Inr self \<and>
           vocabulary self = {''<s>'', ''</s>'', ''<UNK>'', ''a'', ''b''} \<and>
           vocabulary_size self = 5 \<and> num_classes self = 4 \<and>
           lookup (word_ids self) ''a'' = Inr a \<and> lookup (word_ids self) ''b'' = Inr b \<and>
           lookup (word_ids self) ''<s>'' = Inr s \<and>
           word_counts self ! a = 3 \<and> word_counts self ! b = 3 \<and> ww_counts self ! s ! a = 1)"
  using example_construction [OF example_order_valid] example_order_valid by simp

text \<open>
  C10. A move that succeeds leaves the word-level statistics \<open>word_counts\<close> and
  \<open>ww_counts\<close> as they were, and with them the vocabulary, its size, the word ids and
  the number of classes. (On a consistent object the move of a word of the vocabulary to
  a class in range always succeeds, see C2.)
\<close>

theorem move_keeps_word_statistics:
  assumes "move self word_id new_class_id = Inr self'"
  shows "word_counts self' = word_counts self \<and> ww_counts self' = ww_counts self \<and>
         vocabulary self' = vocabulary self \<and> vocabulary_size self' = vocabulary_size self \<and>
         word_ids self' = word_ids self \<and> num_classes self' = num_classes self"
  using assms by (auto simp: move_eq split: if_splits)

theorem move_keeps_word_statistics_witness:
  "\<exists>self'. move example 3 1 = Inr self' \<and>
     word_counts self' = word_counts example \<and> ww_counts self' = ww_counts example \<and>
     vocabulary self' = vocabulary example \<and> vocabulary_size self' = vocabulary_size example \<and>
     word_ids self' = word_ids example \<and> num_classes self' = num_classes example"
proof -
  have h: "3 < vocabulary_size example" "1 < num_classes example"
    by (simp_all add: example_def)
  obtain self' where m: "move example 3 1 = Inr self'"
    using move_consistent [OF example_consistent h] by blast
  show ?thesis using move_keeps_word_statistics [OF m] m by blast
qed

end
